theory Spec2Isabelle
  imports Complex_Main
begin

section \<open>Grid search planner (path_planner.py)\<close>

text \<open>
  Python floats are modelled by the real numbers: every arithmetic operation of the
  source is the exact operation on \<open>real\<close>. A position (a tuple or a three-element
  list in the source) is a triple of reals.
\<close>

type_synonym point = "real \<times> real \<times> real"

subsection \<open>Node\<close>

text \<open>
  The class \<open>Node\<close>: coordinates, the costs \<open>g\<close>, \<open>h\<close>, \<open>f\<close>, and the reference to the
  parent node (\<open>None\<close> for a node without parent).
\<close>

datatype node =
  Node (node_x: real) (node_y: real) (node_z: real)
       (node_g: real) (node_h: real) (node_f: real) (node_parent: "node option")

text \<open>\<open>Node.__init__(x, y, z, g, h, parent)\<close>: \<open>f\<close> is set to \<open>g + h\<close>.\<close>

definition new_Node :: "real \<Rightarrow> real \<Rightarrow> real \<Rightarrow> real \<Rightarrow> real \<Rightarrow> node option \<Rightarrow> node" where
  "new_Node px py pz pg ph par = Node px py pz pg ph (pg + ph) par"

text \<open>\<open>Node.__lt__\<close>: the priority queue compares the \<open>f\<close> values.\<close>

definition node_lt :: "node \<Rightarrow> node \<Rightarrow> bool" where
  "node_lt a b = (node_f a < node_f b)"

definition get_pos :: "node \<Rightarrow> point" where
  "get_pos n = (node_x n, node_y n, node_z n)"

definition get_dist :: "point \<Rightarrow> point \<Rightarrow> real" where
  "get_dist pos1 pos2 =
     sqrt ((fst pos1 - fst pos2)\<^sup>2 +
           (fst (snd pos1) - fst (snd pos2))\<^sup>2 +
           (snd (snd pos1) - snd (snd pos2))\<^sup>2)"

subsection \<open>The environment\<close>

text \<open>
  The planner receives the environment as an object with the two queries
  \<open>is_outside\<close> and \<open>is_collide\<close>; it is a parameter of the model.
\<close>

record environment =
  is_outside :: "point \<Rightarrow> bool"
  is_collide :: "point \<Rightarrow> bool"

subsection \<open>heapq\<close>

text \<open>
  The open list is a Python list managed by \<open>heapq.heappush\<close> and \<open>heapq.heappop\<close>
  (standard library). The model follows the library's \<open>_siftdown\<close> and \<open>_siftup\<close>,
  comparing with \<open>node_lt\<close>. All indices are in range when the functions are entered
  through \<open>heappush\<close> and through \<open>heappop\<close> on a non-empty list.
\<close>

function siftdown_loop :: "node list \<Rightarrow> nat \<Rightarrow> nat \<Rightarrow> node \<Rightarrow> node list" where
  "siftdown_loop heap startpos pos newitem =
     (if pos > startpos then
        (let parentpos = (pos - 1) div 2;
             parent = heap ! parentpos
         in if node_lt newitem parent
            then siftdown_loop (heap[pos := parent]) startpos parentpos newitem
            else heap[pos := newitem])
      else heap[pos := newitem])"
  by pat_completeness auto
termination
  by (relation "measure (\<lambda>(heap, startpos, pos, newitem). pos)") auto

declare siftdown_loop.simps [simp del]

definition siftdown :: "node list \<Rightarrow> nat \<Rightarrow> nat \<Rightarrow> node list" where
  "siftdown heap startpos pos = siftdown_loop heap startpos pos (heap ! pos)"

function siftup_loop :: "node list \<Rightarrow> nat \<Rightarrow> node list \<times> nat" where
  "siftup_loop heap pos =
     (let endpos = length heap;
          childpos = 2 * pos + 1
      in if childpos < endpos then
           (let rightpos = childpos + 1;
                childpos' = (if rightpos < endpos \<and>
                                \<not> node_lt (heap ! childpos) (heap ! rightpos)
                             then rightpos else childpos)
            in siftup_loop (heap[pos := heap ! childpos']) childpos')
         else (heap, pos))"
  by pat_completeness auto
termination
  by (relation "measure (\<lambda>(heap, pos). length heap - pos)") (auto simp: Let_def)

declare siftup_loop.simps [simp del]

definition siftup :: "node list \<Rightarrow> nat \<Rightarrow> node list" where
  "siftup heap pos =
     (let newitem = heap ! pos;
          (heap', pos') = siftup_loop heap pos
      in siftdown (heap'[pos' := newitem]) pos pos')"

definition heappush :: "node list \<Rightarrow> node \<Rightarrow> node list" where
  "heappush heap item = siftdown (heap @ [item]) 0 (length (heap @ [item]) - 1)"

text \<open>
  \<open>heappop\<close> returns the popped item and the remaining heap. The planner calls it
  only under the loop guard \<open>while open_list\<close>, that is, on a non-empty list.
\<close>

definition heappop :: "node list \<Rightarrow> node \<times> node list" where
  "heappop heap =
     (let lastelt = last heap;
          heap' = butlast heap
      in if heap' \<noteq> [] then (hd heap', siftup (heap'[0 := lastelt]) 0)
         else (lastelt, heap'))"

subsection \<open>a_star_search\<close>

text \<open>The 26 movement offsets, in the order the three nested loops generate them.\<close>

definition movements :: "real \<Rightarrow> (real \<times> real \<times> real) list" where
  "movements step_size =
     concat (map (\<lambda>dx.
       concat (map (\<lambda>dy.
         concat (map (\<lambda>dz.
           if dx = 0 \<and> dy = 0 \<and> dz = 0 then [] else [(dx, dy, dz)])
           [- step_size, 0, step_size]))
         [- step_size, 0, step_size]))
       [- step_size, 0, step_size])"

text \<open>
  Python's \<open>round(v, 1)\<close>: the multiple of one tenth nearest to \<open>v\<close>, an exact tie
  going to the even tenth.
\<close>

definition round_half_even :: "real \<Rightarrow> int" where
  "round_half_even v =
     (let n = \<lfloor>v\<rfloor>; r = v - of_int n
      in if r < 1 / 2 then n
         else if r > 1 / 2 then n + 1
         else if even n then n else n + 1)"

definition py_round1 :: "real \<Rightarrow> real" where
  "py_round1 v = of_int (round_half_even (v * 10)) / 10"

definition node_key :: "node \<Rightarrow> point" where
  "node_key n = (py_round1 (node_x n), py_round1 (node_y n), py_round1 (node_z n))"

text \<open>\<open>reconstruct_path\<close>: follow the parent links, then reverse.\<close>

fun backtrack :: "node \<Rightarrow> point list" where
  "backtrack (Node px py pz pg ph pf par) =
     (px, py, pz) # (case par of None \<Rightarrow> [] | Some p \<Rightarrow> backtrack p)"

definition reconstruct_path :: "node \<Rightarrow> point list" where
  "reconstruct_path n = rev (backtrack n)"

text \<open>The body of the loop over \<open>movements\<close>, for one offset.\<close>

definition expand_step :: "environment \<Rightarrow> point \<Rightarrow> node \<Rightarrow> node list \<Rightarrow> real \<times> real \<times> real \<Rightarrow> node list" where
  "expand_step env goal_pos current_node open_list m =
     (case m of (dx, dy, dz) \<Rightarrow>
        (let new_x = node_x current_node + dx;
             new_y = node_y current_node + dy;
             new_z = node_z current_node + dz;
             new_pos = (new_x, new_y, new_z)
         in if is_outside env new_pos then open_list
            else if is_collide env new_pos then open_list
            else
              (let g_cost = node_g current_node + sqrt (dx\<^sup>2 + dy\<^sup>2 + dz\<^sup>2);
                   h_cost = get_dist new_pos goal_pos;
                   new_node = new_Node new_x new_y new_z g_cost h_cost (Some current_node)
               in heappush open_list new_node)))"

definition expand :: "environment \<Rightarrow> point \<Rightarrow> real \<Rightarrow> node \<Rightarrow> node list \<Rightarrow> node list" where
  "expand env goal_pos step_size current_node open_list =
     foldl (expand_step env goal_pos current_node) open_list (movements step_size)"

text \<open>
  The goal node at the return: \<open>goal_node\<close> was created with \<open>g = h = f = 0\<close>; its parent
  and \<open>g\<close> are assigned, \<open>f\<close> is left as it was.
\<close>

definition finish :: "point \<Rightarrow> node \<Rightarrow> point list" where
  "finish goal_pos current_node =
     (let goal_node = new_Node (fst goal_pos) (fst (snd goal_pos)) (snd (snd goal_pos)) 0 0 None;
          goal_node = Node (node_x goal_node) (node_y goal_node) (node_z goal_node)
                        (node_g current_node + get_dist (get_pos current_node) goal_pos)
                        (node_h goal_node) (node_f goal_node) (Some current_node)
      in reconstruct_path goal_node)"

text \<open>
  The \<open>while open_list\<close> loop. It may run forever (an environment without bound), so
  the result is an option: \<open>None\<close> is the loop that never returns, \<open>Some []\<close> the
  failure return, \<open>Some path\<close> a found path.
\<close>

partial_function (option) a_star_loop ::
  "environment \<Rightarrow> point \<Rightarrow> real \<Rightarrow> node list \<Rightarrow> point set \<Rightarrow> point list option" where
  "a_star_loop env goal_pos step_size open_list closed_set =
     (if open_list = [] then Some []
      else
        (let current_node = fst (heappop open_list);
             open_list' = snd (heappop open_list)
         in if get_dist (get_pos current_node) goal_pos < step_size
            then Some (finish goal_pos current_node)
            else if node_key current_node \<in> closed_set
            then a_star_loop env goal_pos step_size open_list' closed_set
            else a_star_loop env goal_pos step_size
                   (expand env goal_pos step_size current_node open_list')
                   (insert (node_key current_node) closed_set)))"

definition a_star_search :: "environment \<Rightarrow> point \<Rightarrow> point \<Rightarrow> real \<Rightarrow> point list option" where
  "a_star_search env start_pos goal_pos step_size =
     (let start_node = new_Node (fst start_pos) (fst (snd start_pos)) (snd (snd start_pos))
                         0 (get_dist start_pos goal_pos) None
      in a_star_loop env goal_pos step_size (heappush [] start_node) {})"

section \<open>Trajectory generator (trajectory_generator.py)\<close>

datatype error = ValueError | IndexError | AttributeError

subsection \<open>The numpy operations the class uses\<close>

text \<open>\<open>np.diff(a, axis=0)\<close> on an array of rows: the differences of consecutive rows.\<close>

definition np_diff :: "point list \<Rightarrow> point list" where
  "np_diff ps =
     map (\<lambda>(p, q). (fst q - fst p, fst (snd q) - fst (snd p), snd (snd q) - snd (snd p)))
       (zip ps (tl ps))"

text \<open>
  \<open>np.linalg.norm(d, axis=1)\<close> and \<open>np.sqrt((d ** 2).sum(axis=1))\<close>: the Euclidean
  length of every row.
\<close>

definition row_norms :: "point list \<Rightarrow> real list" where
  "row_norms ds = map (\<lambda>(a, b, c). sqrt (a\<^sup>2 + b\<^sup>2 + c\<^sup>2)) ds"

text \<open>\<open>a[mask]\<close> with a boolean mask as long as \<open>a\<close>: the rows whose mask entry is true.\<close>

definition select_mask :: "'a list \<Rightarrow> bool list \<Rightarrow> 'a list" where
  "select_mask xs msk = map fst (filter snd (zip xs msk))"

fun cumsum_from :: "real \<Rightarrow> real list \<Rightarrow> real list" where
  "cumsum_from acc [] = []"
| "cumsum_from acc (t # ts) = (acc + t) # cumsum_from (acc + t) ts"

definition np_cumsum :: "real list \<Rightarrow> real list" where
  "np_cumsum ts = cumsum_from 0 ts"

text \<open>
  \<open>np.arange(start, stop, step)\<close>: \<open>ceil((stop - start) / step)\<close> values
  \<open>start + i * step\<close> (none when that number is not positive). A zero step is an error.
\<close>

definition np_arange :: "real \<Rightarrow> real \<Rightarrow> real \<Rightarrow> error + real list" where
  "np_arange start stop step =
     (if step = 0 then Inl ValueError
      else Inr (map (\<lambda>i. start + real i * step) [0 ..< nat \<lceil>(stop - start) / step\<rceil>]))"

subsection \<open>scipy.interpolate.CubicSpline with bc_type='clamped'\<close>

text \<open>
  The three splines are built by the library class \<open>CubicSpline\<close>, which is not part
  of the repository. The model follows the library's construction in exact real
  arithmetic: the validation of the breakpoints, the derivatives at the knots from the
  tridiagonal system of the clamped boundary condition, the coefficients of the cubic
  Hermite form, and the evaluation of the piecewise polynomial.

  A piecewise polynomial (scipy's \<open>PPoly\<close>): the breakpoints and, for every interval,
  the four coefficients of the cubic in powers of the distance to the interval's left
  breakpoint, highest power first.
\<close>

record ppoly =
  pp_c :: "(real \<times> real \<times> real \<times> real) list"
  pp_x :: "real list"

text \<open>
  The interval a point is evaluated in: the last interval whose left breakpoint is not
  greater than the point, the first interval for a point left of all breakpoints, the
  last one for a point at or right of the last breakpoint (extrapolation is on).
\<close>

definition find_interval :: "real list \<Rightarrow> real \<Rightarrow> nat" where
  "find_interval xs t = length (takeWhile (\<lambda>b. b \<le> t) (butlast (tl xs)))"

definition ppoly_call :: "ppoly \<Rightarrow> real \<Rightarrow> real" where
  "ppoly_call pp t =
     (let i = find_interval (pp_x pp) t;
          d = t - pp_x pp ! i
      in case pp_c pp ! i of (c0, c1, c2, c3) \<Rightarrow> c0 * d ^ 3 + c1 * d\<^sup>2 + c2 * d + c3)"

text \<open>
  The derivatives at the knots solve a tridiagonal system; \<open>solve_banded\<close> is modelled
  by elimination without pivoting on the rows (lower, diagonal, upper, right-hand side).
\<close>

fun eliminate :: "real \<Rightarrow> real \<Rightarrow> (real \<times> real \<times> real \<times> real) list \<Rightarrow> (real \<times> real) list" where
  "eliminate cp bp [] = []"
| "eliminate cp bp ((l, d, u, b) # rows) =
     (let m = d - l * cp; c' = u / m; b' = (b - l * bp) / m
      in (c', b') # eliminate c' b' rows)"

fun back_substitute :: "(real \<times> real) list \<Rightarrow> real list" where
  "back_substitute [] = []"
| "back_substitute ((c', b') # rest) =
     (case back_substitute rest of
        [] \<Rightarrow> [b']
      | s1 # ss \<Rightarrow> (b' - c' * s1) # s1 # ss)"

definition solve_banded :: "(real \<times> real \<times> real \<times> real) list \<Rightarrow> real list" where
  "solve_banded rows = back_substitute (eliminate 0 0 rows)"

definition np_diff1 :: "real list \<Rightarrow> real list" where
  "np_diff1 xs = map (\<lambda>(a, b). b - a) (zip xs (tl xs))"

text \<open>
  The system of the clamped spline: the first and the last row fix the end derivatives
  to zero, row \<open>i\<close> in between is
  \<open>dx[i] * s[i-1] + 2 * (dx[i-1] + dx[i]) * s[i] + dx[i-1] * s[i+1] =
    3 * (dx[i] * slope[i-1] + dx[i-1] * slope[i])\<close>.
\<close>

definition clamped_rows :: "real list \<Rightarrow> real list \<Rightarrow> (real \<times> real \<times> real \<times> real) list" where
  "clamped_rows dx slope =
     (let n = length dx + 1
      in map (\<lambda>i. if i = 0 \<or> i = n - 1 then (0, 1, 0, 0)
                   else (dx ! i, 2 * (dx ! (i - 1) + dx ! i), dx ! (i - 1),
                         3 * (dx ! i * slope ! (i - 1) + dx ! (i - 1) * slope ! i)))
           [0 ..< n])"

text \<open>
  The constructor rejects breakpoints that are fewer than two, not as many as the
  values, or not strictly increasing; otherwise the coefficients of interval \<open>i\<close> are
  those of the cubic Hermite form for the values \<open>y[i]\<close>, \<open>y[i+1]\<close> and the
  derivatives \<open>s[i]\<close>, \<open>s[i+1]\<close>.
\<close>

definition CubicSpline :: "real list \<Rightarrow> real list \<Rightarrow> error + ppoly" where
  "CubicSpline xs ys =
     (if length xs < 2 then Inl ValueError
      else if length xs \<noteq> length ys then Inl ValueError
      else if \<not> sorted_wrt (<) xs then Inl ValueError
      else
        (let dx = np_diff1 xs;
             slope = map (\<lambda>(dy, h). dy / h) (zip (np_diff1 ys) dx);
             s = solve_banded (clamped_rows dx slope);
             c = map (\<lambda>i.
                   (let t = (s ! i + s ! (i + 1) - 2 * slope ! i) / dx ! i
                    in (t / dx ! i, (slope ! i - s ! i) / dx ! i - t, s ! i, ys ! i)))
                   [0 ..< length xs - 1]
         in Inr \<lparr>pp_c = c, pp_x = xs\<rparr>))"

subsection \<open>TrajectoryGenerator\<close>

text \<open>
  The object's attributes. \<open>avg_speed\<close> and the three splines are not set when the
  constructor returns early (fewer than two points after deduplication).
\<close>

record trajectory_generator =
  tg_path :: "point list"
  tg_time_knots :: "real list"
  tg_avg_speed :: "real option"
  tg_cs_x :: "ppoly option"
  tg_cs_y :: "ppoly option"
  tg_cs_z :: "ppoly option"

text \<open>The preprocessing of \<open>__init__\<close>: the mask and the selection.\<close>

definition deduplicate :: "point list \<Rightarrow> point list" where
  "deduplicate raw_path =
     (if length raw_path > 0 then
        (let diffs = np_diff raw_path;
             dists = row_norms diffs;
             msk = [True] @ map (\<lambda>d. d > 1 / 1000) dists
         in select_mask raw_path msk)
      else raw_path)"

definition calculate_time_knots :: "point list \<Rightarrow> real \<Rightarrow> real list" where
  "calculate_time_knots pth avg_speed =
     (let diffs = np_diff pth;
          distances = row_norms diffs;
          distances = map (\<lambda>d. max d (1 / 1000000)) distances;
          times = map (\<lambda>d. d / avg_speed) distances
      in [0] @ np_cumsum times)"

text \<open>
  \<open>__init__\<close>. With an average speed of zero the division makes every knot after the
  first one infinite (numpy warns and goes on), and \<open>CubicSpline\<close> rejects breakpoints
  that are not finite: the model returns that error at the division.
\<close>

definition TrajectoryGenerator_init :: "point list \<Rightarrow> real \<Rightarrow> error + trajectory_generator" where
  "TrajectoryGenerator_init raw_path average_speed =
     (let pth = deduplicate raw_path
      in if length pth < 2
         then Inr \<lparr>tg_path = pth, tg_time_knots = [0], tg_avg_speed = None,
                   tg_cs_x = None, tg_cs_y = None, tg_cs_z = None\<rparr>
         else if average_speed = 0 then Inl ValueError
         else
           (let time_knots = calculate_time_knots pth average_speed
            in case CubicSpline time_knots (map fst pth) of
                 Inl e \<Rightarrow> Inl e
               | Inr cs_x \<Rightarrow>
                   (case CubicSpline time_knots (map (\<lambda>p. fst (snd p)) pth) of
                      Inl e \<Rightarrow> Inl e
                    | Inr cs_y \<Rightarrow>
                        (case CubicSpline time_knots (map (\<lambda>p. snd (snd p)) pth) of
                           Inl e \<Rightarrow> Inl e
                         | Inr cs_z \<Rightarrow>
                             Inr \<lparr>tg_path = pth, tg_time_knots = time_knots,
                                  tg_avg_speed = Some average_speed,
                                  tg_cs_x = Some cs_x, tg_cs_y = Some cs_y,
                                  tg_cs_z = Some cs_z\<rparr>))))"

text \<open>
  \<open>solve(dt)\<close> returns the four arrays \<open>t_eval\<close>, \<open>x_traj\<close>, \<open>y_traj\<close>, \<open>z_traj\<close>.
  \<open>t_eval[-1]\<close> on an empty array is an IndexError.
\<close>

definition solve :: "trajectory_generator \<Rightarrow> real \<Rightarrow> error + (real list \<times> real list \<times> real list \<times> real list)" where
  "solve tg dt =
     (if length (tg_path tg) < 2 then Inr ([], [], [], [])
      else
        (let total_time = last (tg_time_knots tg)
         in case np_arange 0 total_time dt of
              Inl e \<Rightarrow> Inl e
            | Inr t_eval \<Rightarrow>
                if t_eval = [] then Inl IndexError
                else
                  (let t_eval = (if last t_eval < total_time then t_eval @ [total_time]
                                 else t_eval)
                   in case (tg_cs_x tg, tg_cs_y tg, tg_cs_z tg) of
                        (Some cs_x, Some cs_y, Some cs_z) \<Rightarrow>
                          Inr (t_eval, map (ppoly_call cs_x) t_eval,
                               map (ppoly_call cs_y) t_eval, map (ppoly_call cs_z) t_eval)
                      | _ \<Rightarrow> Inl AttributeError)))"

section \<open>Notions used to state the properties\<close>

text \<open>
  A node of the search tree grown from the start position: the start node itself (no
  parent), or a node that the expansion of such a node creates, that is, its parent
  moved by one of the offsets, at a position the environment reports neither outside
  nor colliding.
\<close>

inductive lattice_node :: "environment \<Rightarrow> point \<Rightarrow> real \<Rightarrow> node \<Rightarrow> bool"
  for env :: environment and start_pos :: point and step_size :: real where
  root: "get_pos n = start_pos \<Longrightarrow> node_parent n = None \<Longrightarrow>
         lattice_node env start_pos step_size n"
| step: "lattice_node env start_pos step_size p \<Longrightarrow>
         (dx, dy, dz) \<in> set (movements step_size) \<Longrightarrow>
         get_pos n = (node_x p + dx, node_y p + dy, node_z p + dz) \<Longrightarrow>
         \<not> is_outside env (get_pos n) \<Longrightarrow> \<not> is_collide env (get_pos n) \<Longrightarrow>
         node_parent n = Some p \<Longrightarrow> lattice_node env start_pos step_size n"

text \<open>A path that ends the search: the chain of a tree node within one step of the goal,
  followed by the goal.\<close>

definition found :: "environment \<Rightarrow> point \<Rightarrow> point \<Rightarrow> real \<Rightarrow> point list \<Rightarrow> bool" where
  "found env start_pos goal_pos step_size pth =
     (\<exists>cur. lattice_node env start_pos step_size cur \<and>
            get_dist (get_pos cur) goal_pos < step_size \<and>
            pth = rev (backtrack cur) @ [goal_pos])"

text \<open>
  The reachable lattice: the positions reached from the start by offsets through
  positions that are neither outside nor colliding.
\<close>

inductive reachable :: "environment \<Rightarrow> point \<Rightarrow> real \<Rightarrow> point \<Rightarrow> bool"
  for env :: environment and start_pos :: point and step_size :: real where
  start: "reachable env start_pos step_size start_pos"
| move: "reachable env start_pos step_size (px, py, pz) \<Longrightarrow>
         (dx, dy, dz) \<in> set (movements step_size) \<Longrightarrow>
         \<not> is_outside env (px + dx, py + dy, pz + dz) \<Longrightarrow>
         \<not> is_collide env (px + dx, py + dy, pz + dz) \<Longrightarrow>
         reachable env start_pos step_size (px + dx, py + dy, pz + dz)"

text \<open>The goal is unreachable: no reachable position is within one step of it.\<close>

definition goal_unreachable :: "environment \<Rightarrow> point \<Rightarrow> point \<Rightarrow> real \<Rightarrow> bool" where
  "goal_unreachable env start_pos goal_pos step_size =
     (\<forall>p. reachable env start_pos step_size p \<longrightarrow> \<not> get_dist p goal_pos < step_size)"

text \<open>The boundary region is bounded: every position that is not outside lies in a cube.\<close>

definition bounded_region :: "environment \<Rightarrow> real \<Rightarrow> bool" where
  "bounded_region env B =
     (\<forall>p. \<not> is_outside env p \<longrightarrow>
          \<bar>fst p\<bar> \<le> B \<and> \<bar>fst (snd p)\<bar> \<le> B \<and> \<bar>snd (snd p)\<bar> \<le> B)"

text \<open>A position is valid: the environment reports it neither outside nor colliding.\<close>

definition valid_pos :: "environment \<Rightarrow> point \<Rightarrow> bool" where
  "valid_pos env p = (\<not> is_outside env p \<and> \<not> is_collide env p)"

text \<open>The key of a position: the key of a node, as a function of the node's position.\<close>

definition pos_key :: "point \<Rightarrow> point" where
  "pos_key p = (py_round1 (fst p), py_round1 (fst (snd p)), py_round1 (snd (snd p)))"

text \<open>\<open>k\<close> is \<open>v\<close> rounded to one decimal: a whole number of tenths, at most half a
  tenth away from \<open>v\<close>.\<close>

definition one_decimal :: "real \<Rightarrow> real \<Rightarrow> bool" where
  "one_decimal v k = ((\<exists>i::int. k * 10 = of_int i) \<and> \<bar>k - v\<bar> \<le> 1 / 20)"

text \<open>
  Following the specification's wording, not the source: a coordinate rounded to the
  lattice resolution \<open>s\<close>, that is, to the nearest multiple of the step size, and the
  key made of the three coordinates rounded so. It is compared with \<open>node_key\<close>, the
  key the source computes.
\<close>

definition round_to_resolution :: "real \<Rightarrow> real \<Rightarrow> real" where
  "round_to_resolution s v = of_int (round_half_even (v / s)) * s"

definition lattice_key :: "real \<Rightarrow> node \<Rightarrow> point" where
  "lattice_key s n =
     (round_to_resolution s (node_x n), round_to_resolution s (node_y n),
      round_to_resolution s (node_z n))"

subsection \<open>An environment for concrete runs\<close>

text \<open>A corridor along the x axis from 0 to 1, without obstacles.\<close>

definition corridor_env :: environment where
  "corridor_env =
     \<lparr>is_outside = (\<lambda>p. fst p < 0 \<or> fst p > 1 \<or> fst (snd p) \<noteq> 0 \<or> snd (snd p) \<noteq> 0),
      is_collide = (\<lambda>p. False)\<rparr>"

code_pred lattice_node .

code_pred reachable .

section \<open>The priority queue keeps its elements\<close>

lemma length_siftdown_loop: "length (siftdown_loop heap startpos pos newitem) = length heap"
proof (induction heap startpos pos newitem rule: siftdown_loop.induct)
  case (1 heap startpos pos newitem)
  show ?case
    using "1.IH"[OF _ refl refl]
    by (subst siftdown_loop.simps) (simp add: Let_def)
qed

lemma set_update_nth_subset: "j < length heap \<Longrightarrow> set (heap[i := heap ! j]) \<subseteq> set heap"
  using set_update_subset_insert[of heap i "heap ! j"] by auto

lemma set_siftdown_loop:
  "pos < length heap \<Longrightarrow> set (siftdown_loop heap startpos pos newitem) \<subseteq> insert newitem (set heap)"
proof (induction heap startpos pos newitem rule: siftdown_loop.induct)
  case (1 heap startpos pos newitem)
  let ?pp = "(pos - 1) div 2"
  show ?case
  proof (cases "pos > startpos \<and> node_lt newitem (heap ! ?pp)")
    case True
    then have lt: "?pp < length heap" using "1.prems" by auto
    have "set (siftdown_loop (heap[pos := heap ! ?pp]) startpos ?pp newitem)
             \<subseteq> insert newitem (set (heap[pos := heap ! ?pp]))"
      using "1.IH"[OF _ refl refl] True lt by simp
    also have "\<dots> \<subseteq> insert newitem (set heap)"
      using set_update_nth_subset[OF lt, of pos] by auto
    finally show ?thesis
      using True by (subst siftdown_loop.simps) (simp add: Let_def)
  next
    case False
    have "siftdown_loop heap startpos pos newitem = heap[pos := newitem]"
      using False by (subst siftdown_loop.simps) (auto simp: Let_def)
    then show ?thesis
      using set_update_subset_insert[of heap pos newitem] by simp
  qed
qed

lemma length_siftup_loop: "length (fst (siftup_loop heap pos)) = length heap"
proof (induction heap pos rule: siftup_loop.induct)
  case (1 heap pos)
  let ?c = "2 * pos + 1"
  let ?c' = "if ?c + 1 < length heap \<and> \<not> node_lt (heap ! ?c) (heap ! (?c + 1)) then ?c + 1 else ?c"
  show ?case
  proof (cases "?c < length heap")
    case True
    have eq: "siftup_loop heap pos = siftup_loop (heap[pos := heap ! ?c']) ?c'"
      using True by (subst siftup_loop.simps) (simp add: Let_def)
    have "length (fst (siftup_loop (heap[pos := heap ! ?c']) ?c')) = length (heap[pos := heap ! ?c'])"
      by (rule "1.IH"[OF refl refl True refl refl])
    then show ?thesis unfolding eq by simp
  next
    case False
    have "siftup_loop heap pos = (heap, pos)"
      using False by (subst siftup_loop.simps) (simp add: Let_def)
    then show ?thesis by simp
  qed
qed

lemma siftup_loop_props:
  "pos < length heap \<Longrightarrow>
     set (fst (siftup_loop heap pos)) \<subseteq> set heap \<and> snd (siftup_loop heap pos) < length heap"
proof (induction heap pos rule: siftup_loop.induct)
  case (1 heap pos)
  let ?c = "2 * pos + 1"
  let ?c' = "if ?c + 1 < length heap \<and> \<not> node_lt (heap ! ?c) (heap ! (?c + 1)) then ?c + 1 else ?c"
  show ?case
  proof (cases "?c < length heap")
    case True
    then have c': "?c' < length heap" by simp
    have eq: "siftup_loop heap pos = siftup_loop (heap[pos := heap ! ?c']) ?c'"
      using True by (subst siftup_loop.simps) (simp add: Let_def)
    have sub: "set (heap[pos := heap ! ?c']) \<subseteq> set heap"
      by (rule set_update_nth_subset[OF c'])
    have IH: "set (fst (siftup_loop (heap[pos := heap ! ?c']) ?c')) \<subseteq> set (heap[pos := heap ! ?c'])
          \<and> snd (siftup_loop (heap[pos := heap ! ?c']) ?c') < length (heap[pos := heap ! ?c'])"
      using "1.IH"[OF refl refl True refl refl] c' by simp
    show ?thesis
      unfolding eq using IH sub by auto
  next
    case False
    have "siftup_loop heap pos = (heap, pos)"
      using False by (subst siftup_loop.simps) (simp add: Let_def)
    then show ?thesis using "1.prems" by simp
  qed
qed

lemma length_siftdown: "length (siftdown heap startpos pos) = length heap"
  by (simp add: siftdown_def length_siftdown_loop)

lemma set_siftdown: "pos < length heap \<Longrightarrow> set (siftdown heap startpos pos) \<subseteq> set heap"
  using set_siftdown_loop[of pos heap startpos "heap ! pos"]
  by (auto simp: siftdown_def)

lemma length_siftup: "length (siftup heap pos) = length heap"
  using length_siftup_loop[of heap pos]
  by (simp add: siftup_def Let_def split_beta length_siftdown)

lemma set_siftup: "pos < length heap \<Longrightarrow> set (siftup heap pos) \<subseteq> set heap"
proof -
  assume p: "pos < length heap"
  obtain h' p' where s: "siftup_loop heap pos = (h', p')" by (cases "siftup_loop heap pos")
  from siftup_loop_props[OF p] s have h': "set h' \<subseteq> set heap" and p': "p' < length heap" by auto
  from length_siftup_loop[of heap pos] s have len: "length h' = length heap" by simp
  have "set (siftdown (h'[p' := heap ! pos]) pos p') \<subseteq> set (h'[p' := heap ! pos])"
    by (rule set_siftdown) (simp add: len p')
  also have "\<dots> \<subseteq> insert (heap ! pos) (set h')" by (rule set_update_subset_insert)
  also have "\<dots> \<subseteq> set heap" using h' p by auto
  finally show ?thesis by (simp add: siftup_def s)
qed

lemma length_heappush: "length (heappush heap item) = Suc (length heap)"
  by (simp add: heappush_def length_siftdown)

lemma set_heappush: "set (heappush heap item) \<subseteq> insert item (set heap)"
  using set_siftdown[of "length heap" "heap @ [item]" 0]
  by (auto simp: heappush_def)

lemma heappop_fst: "heap \<noteq> [] \<Longrightarrow> fst (heappop heap) \<in> set heap"
  by (auto simp: heappop_def Let_def dest: in_set_butlastD hd_in_set[THEN in_set_butlastD])

lemma length_heappop: "length (snd (heappop heap)) = length heap - 1"
proof (cases "butlast heap = []")
  case True
  then have "snd (heappop heap) = butlast heap" by (simp only: heappop_def Let_def if_False not_True_eq_False snd_conv simp_thms)
  then show ?thesis by simp
next
  case False
  then have "snd (heappop heap) = siftup ((butlast heap)[0 := last heap]) 0"
    by (simp only: heappop_def Let_def if_True snd_conv simp_thms)
  then show ?thesis by (simp add: length_siftup)
qed

lemma set_heappop: "heap \<noteq> [] \<Longrightarrow> set (snd (heappop heap)) \<subseteq> set heap"
proof -
  assume ne: "heap \<noteq> []"
  show ?thesis
  proof (cases "butlast heap = []")
    case True
    then have "snd (heappop heap) = butlast heap"
      by (simp only: heappop_def Let_def if_False not_True_eq_False snd_conv simp_thms)
    then show ?thesis by (auto dest: in_set_butlastD)
  next
    case False
    then have eq: "snd (heappop heap) = siftup ((butlast heap)[0 := last heap]) 0"
      by (simp only: heappop_def Let_def if_True snd_conv simp_thms)
    from False have "0 < length (butlast heap)" by (rule length_greater_0_conv[THEN iffD2])
    then have pos: "0 < length ((butlast heap)[0 := last heap])" by (simp only: length_list_update)
    have "set (siftup ((butlast heap)[0 := last heap]) 0) \<subseteq> set ((butlast heap)[0 := last heap])"
      by (rule set_siftup[OF pos])
    also have "\<dots> \<subseteq> insert (last heap) (set (butlast heap))" by (rule set_update_subset_insert)
    also have "\<dots> \<subseteq> set heap" using ne by (auto dest: in_set_butlastD)
    finally show ?thesis unfolding eq .
  qed
qed

section \<open>The search tree\<close>

lemma backtrack_eq: "backtrack n = get_pos n # (case node_parent n of None \<Rightarrow> [] | Some p \<Rightarrow> backtrack p)"
  by (cases n) (simp add: get_pos_def)

lemma expand_step_inv:
  assumes "\<forall>n \<in> set open_list. lattice_node env start_pos step_size n"
    and "lattice_node env start_pos step_size cur"
    and "m \<in> set (movements step_size)"
  shows "\<forall>n \<in> set (expand_step env goal_pos cur open_list m). lattice_node env start_pos step_size n"
proof -
  obtain dx dy dz where m: "m = (dx, dy, dz)" by (cases m)
  let ?new = "new_Node (node_x cur + dx) (node_y cur + dy) (node_z cur + dz)
      (node_g cur + sqrt (dx\<^sup>2 + dy\<^sup>2 + dz\<^sup>2))
      (get_dist (node_x cur + dx, node_y cur + dy, node_z cur + dz) goal_pos) (Some cur)"
  show ?thesis
  proof (cases "is_outside env (node_x cur + dx, node_y cur + dy, node_z cur + dz) \<or>
                is_collide env (node_x cur + dx, node_y cur + dy, node_z cur + dz)")
    case True
    then have "expand_step env goal_pos cur open_list m = open_list"
      by (auto simp: expand_step_def m Let_def)
    then show ?thesis using assms(1) by simp
  next
    case False
    then have eq: "expand_step env goal_pos cur open_list m = heappush open_list ?new"
      by (auto simp: expand_step_def m Let_def)
    have "lattice_node env start_pos step_size ?new"
      by (rule lattice_node.step[OF assms(2), of dx dy dz])
         (use False assms(3) in \<open>auto simp: m new_Node_def get_pos_def\<close>)
    then show ?thesis
      unfolding eq using set_heappush[of open_list ?new] assms(1) by auto
  qed
qed

lemma foldl_expand_inv:
  assumes "lattice_node env start_pos step_size cur"
  shows "\<forall>n \<in> set open_list. lattice_node env start_pos step_size n \<Longrightarrow>
      set ms \<subseteq> set (movements step_size) \<Longrightarrow>
      \<forall>n \<in> set (foldl (expand_step env goal_pos cur) open_list ms). lattice_node env start_pos step_size n"
proof (induction ms arbitrary: open_list)
  case Nil
  then show ?case by simp
next
  case (Cons m ms)
  have "\<forall>n \<in> set (expand_step env goal_pos cur open_list m). lattice_node env start_pos step_size n"
    by (rule expand_step_inv[OF Cons.prems(1) assms]) (use Cons.prems(2) in simp)
  then show ?case using Cons.IH Cons.prems(2) by simp
qed

lemma expand_inv:
  assumes "lattice_node env start_pos step_size cur"
    and "\<forall>n \<in> set open_list. lattice_node env start_pos step_size n"
  shows "\<forall>n \<in> set (expand env goal_pos step_size cur open_list). lattice_node env start_pos step_size n"
  unfolding expand_def by (rule foldl_expand_inv[OF assms(1) assms(2)]) simp

lemma finish_eq: "finish goal_pos cur = rev (backtrack cur) @ [goal_pos]"
  by (simp add: finish_def new_Node_def reconstruct_path_def Let_def)

lemma a_star_loop_result:
  assumes "a_star_loop env goal_pos step_size open_list closed_set = Some path"
  shows "(\<forall>n \<in> set open_list. lattice_node env start_pos step_size n) \<longrightarrow>
         (path = [] \<or> found env start_pos goal_pos step_size path)"
proof (rule a_star_loop.raw_induct[where P = "\<lambda>env goal_pos step_size open_list closed_set path.
         (\<forall>n \<in> set open_list. lattice_node env start_pos step_size n) \<longrightarrow>
         (path = [] \<or> found env start_pos goal_pos step_size path)", OF _ assms], goal_cases)
  case (1 loop env goal_pos step_size open_list closed_set path)
  show ?case
  proof
  assume inv: "\<forall>n \<in> set open_list. lattice_node env start_pos step_size n"
  show "path = [] \<or> found env start_pos goal_pos step_size path"
  proof (cases "open_list = []")
    case True
    with 1(2) show ?thesis by simp
  next
    case False
    let ?cur = "fst (heappop open_list)"
    let ?rest = "snd (heappop open_list)"
    have cur: "lattice_node env start_pos step_size ?cur"
      using heappop_fst[OF False] inv by blast
    have rest: "\<forall>n \<in> set ?rest. lattice_node env start_pos step_size n"
      using set_heappop[OF False] inv by blast
    show ?thesis
    proof (cases "get_dist (get_pos ?cur) goal_pos < step_size")
      case True
      with 1(2) False have "path = finish goal_pos ?cur" by (simp add: Let_def)
      then show ?thesis using cur True by (auto simp: found_def finish_eq)
    next
      case far: False
      show ?thesis
      proof (cases "node_key ?cur \<in> closed_set")
        case True
        with 1(2) False far have "loop env goal_pos step_size ?rest closed_set = Some path"
          by (simp add: Let_def)
        then show ?thesis using 1(1) rest by blast
      next
        case new: False
        with 1(2) False far have "loop env goal_pos step_size
            (expand env goal_pos step_size ?cur ?rest) (insert (node_key ?cur) closed_set) = Some path"
          by (simp add: Let_def)
        then show ?thesis using 1(1) expand_inv[OF cur rest] by blast
      qed
    qed
  qed
  qed
qed

lemma backtrack_root: "node_parent n = None \<Longrightarrow> backtrack n = [get_pos n]"
  by (simp add: backtrack_eq)

lemma backtrack_child: "node_parent n = Some p \<Longrightarrow> backtrack n = get_pos n # backtrack p"
  by (simp add: backtrack_eq)

lemma backtrack_nonempty: "backtrack n \<noteq> []"
  by (subst backtrack_eq) simp

lemma hd_backtrack: "hd (backtrack n) = get_pos n"
  by (subst backtrack_eq) simp

lemma lattice_last: "lattice_node env start_pos step_size n \<Longrightarrow> last (backtrack n) = start_pos"
  by (induction rule: lattice_node.induct) (simp_all add: backtrack_root backtrack_child backtrack_nonempty)

lemma lattice_valid:
  "lattice_node env start_pos step_size n \<Longrightarrow>
   \<forall>p \<in> set (butlast (backtrack n)). valid_pos env p"
  by (induction rule: lattice_node.induct)
     (simp_all add: backtrack_root backtrack_child backtrack_nonempty valid_pos_def)

lemma lattice_reachable:
  "lattice_node env start_pos step_size n \<Longrightarrow> reachable env start_pos step_size (get_pos n)"
proof (induction rule: lattice_node.induct)
  case (root n)
  then show ?case by (simp add: reachable.start)
next
  case (step p dx dy dz n)
  have "reachable env start_pos step_size (node_x p, node_y p, node_z p)"
    using step.IH by (simp add: get_pos_def)
  from reachable.move[OF this step.hyps(2)] step.hyps(3,4,5) show ?case by simp
qed

lemma movements_mem:
  "(dx, dy, dz) \<in> set (movements s) \<Longrightarrow>
     dx \<in> {- s, 0, s} \<and> dy \<in> {- s, 0, s} \<and> dz \<in> {- s, 0, s} \<and> \<not> (dx = 0 \<and> dy = 0 \<and> dz = 0)"
  unfolding movements_def by (auto split: if_splits)

lemma sq_offset: "d \<in> {- s, 0, s} \<Longrightarrow> d\<^sup>2 = (if d = 0 then 0 else s\<^sup>2)" for d s :: real
  by auto

lemma movement_length:
  assumes "(dx, dy, dz) \<in> set (movements s)" and "0 < s"
  shows "sqrt (dx\<^sup>2 + dy\<^sup>2 + dz\<^sup>2) \<in> {s, s * sqrt 2, s * sqrt 3}"
proof -
  from movements_mem[OF assms(1)] have m: "dx \<in> {- s, 0, s}" "dy \<in> {- s, 0, s}" "dz \<in> {- s, 0, s}"
    "\<not> (dx = 0 \<and> dy = 0 \<and> dz = 0)" by simp_all
  show ?thesis
    unfolding sq_offset[OF m(1)] sq_offset[OF m(2)] sq_offset[OF m(3)]
    using m(4) assms(2) by (auto simp: real_sqrt_mult)
qed

lemma get_dist_offset:
  "get_dist (px, py, pz) (px + dx, py + dy, pz + dz) = sqrt (dx\<^sup>2 + dy\<^sup>2 + dz\<^sup>2)"
  by (simp add: get_dist_def power2_commute[of px "px + dx"] power2_commute[of py "py + dy"]
        power2_commute[of pz "pz + dz"])

text \<open>Consecutive positions of a chain, child before parent.\<close>

lemma lattice_steps:
  "lattice_node env start_pos step_size n \<Longrightarrow> 0 < step_size \<Longrightarrow>
   \<forall>i. Suc i < length (backtrack n) \<longrightarrow>
       get_dist (backtrack n ! Suc i) (backtrack n ! i)
         \<in> {step_size, step_size * sqrt 2, step_size * sqrt 3}"
proof (induction rule: lattice_node.induct)
  case (root n)
  then show ?case by (simp add: backtrack_root)
next
  case (step p dx dy dz n)
  have bt: "backtrack n = get_pos n # backtrack p" using step.hyps(6) by (rule backtrack_child)
  have first: "get_dist (get_pos p) (get_pos n) \<in> {step_size, step_size * sqrt 2, step_size * sqrt 3}"
    unfolding step.hyps(3) using movement_length[OF step.hyps(2) step.prems]
    by (simp add: get_pos_def[of p] get_dist_offset)
  show ?case
  proof (intro allI impI)
    fix i assume i: "Suc i < length (backtrack n)"
    show "get_dist (backtrack n ! Suc i) (backtrack n ! i)
         \<in> {step_size, step_size * sqrt 2, step_size * sqrt 3}"
    proof (cases i)
      case 0
      have "backtrack p ! 0 = get_pos p"
        using hd_backtrack[of p] backtrack_nonempty[of p] by (simp add: hd_conv_nth)
      then show ?thesis using first by (simp add: bt 0)
    next
      case (Suc j)
      then have "Suc j < length (backtrack p)" using i by (simp add: bt)
      then show ?thesis using step.IH step.prems by (simp add: bt Suc)
    qed
  qed
qed

lemma a_star_search_result:
  assumes "a_star_search env start_pos goal_pos step_size = Some pth"
  shows "pth = [] \<or> found env start_pos goal_pos step_size pth"
proof -
  let ?start = "new_Node (fst start_pos) (fst (snd start_pos)) (snd (snd start_pos))
                         0 (get_dist start_pos goal_pos) None"
  have "lattice_node env start_pos step_size ?start"
    by (rule lattice_node.root) (simp_all add: new_Node_def get_pos_def)
  then have "\<forall>n \<in> set (heappush [] ?start). lattice_node env start_pos step_size n"
    using set_heappush[of "[]" ?start] by auto
  moreover have "a_star_loop env goal_pos step_size (heappush [] ?start) {} = Some pth"
    using assms by (simp add: a_star_search_def Let_def)
  ultimately show ?thesis using a_star_loop_result by blast
qed

section \<open>Termination of the search\<close>

lemma node_key_pos_key: "node_key n = pos_key (get_pos n)"
  by (simp add: node_key_def pos_key_def get_pos_def)

lemma round_half_even_bounds: "\<lfloor>v\<rfloor> \<le> round_half_even v \<and> round_half_even v \<le> \<lfloor>v\<rfloor> + 1"
  by (simp add: round_half_even_def Let_def)

lemma py_round1_range:
  assumes "\<bar>v\<bar> \<le> B"
  shows "py_round1 v \<in> (\<lambda>k. real_of_int k / 10) ` {- (\<lceil>10 * B\<rceil> + 1) .. \<lceil>10 * B\<rceil> + 1}"
proof -
  let ?k = "round_half_even (v * 10)"
  have up: "v * 10 \<le> 10 * B" and lo: "- (10 * B) \<le> v * 10" using assms by auto
  have "\<lfloor>v * 10\<rfloor> \<le> \<lceil>10 * B\<rceil>" using up by linarith
  then have a: "?k \<le> \<lceil>10 * B\<rceil> + 1" using round_half_even_bounds[of "v * 10"] by linarith
  have "- \<lceil>10 * B\<rceil> - 1 \<le> \<lfloor>v * 10\<rfloor>" using lo by linarith
  then have b: "- (\<lceil>10 * B\<rceil> + 1) \<le> ?k" using round_half_even_bounds[of "v * 10"] by linarith
  show ?thesis unfolding py_round1_def using a b by auto
qed

lemma finite_keys:
  assumes "bounded_region env B"
  shows "finite (pos_key ` {p. \<not> is_outside env p})"
proof -
  let ?R = "(\<lambda>k. real_of_int k / 10) ` {- (\<lceil>10 * B\<rceil> + 1) .. \<lceil>10 * B\<rceil> + 1}"
  have "pos_key ` {p. \<not> is_outside env p} \<subseteq> ?R \<times> ?R \<times> ?R"
  proof
    fix k assume "k \<in> pos_key ` {p. \<not> is_outside env p}"
    then obtain p where p: "\<not> is_outside env p" and k: "k = pos_key p" by auto
    from assms p have "\<bar>fst p\<bar> \<le> B \<and> \<bar>fst (snd p)\<bar> \<le> B \<and> \<bar>snd (snd p)\<bar> \<le> B"
      unfolding bounded_region_def by blast
    then show "k \<in> ?R \<times> ?R \<times> ?R"
      unfolding k pos_key_def using py_round1_range by simp
  qed
  moreover have "finite (?R \<times> ?R \<times> ?R)" by simp
  ultimately show ?thesis by (rule finite_subset)
qed

lemma lattice_pos: "lattice_node env start_pos step_size n \<Longrightarrow>
    get_pos n = start_pos \<or> \<not> is_outside env (get_pos n)"
  by (induction rule: lattice_node.induct) auto

lemma length_movements: "length (movements s) \<le> 27"
  by (simp add: movements_def)

lemma length_expand_step: "length (expand_step env goal_pos cur open_list m) \<le> Suc (length open_list)"
  by (cases m) (simp add: expand_step_def Let_def length_heappush)

lemma length_foldl_expand:
  "length (foldl (expand_step env goal_pos cur) open_list ms) \<le> length open_list + length ms"
proof (induction ms arbitrary: open_list)
  case Nil
  then show ?case by simp
next
  case (Cons m ms)
  have "length (foldl (expand_step env goal_pos cur) (expand_step env goal_pos cur open_list m) ms)
      \<le> length (expand_step env goal_pos cur open_list m) + length ms" by (rule Cons.IH)
  also have "\<dots> \<le> Suc (length open_list) + length ms"
    using length_expand_step[of env goal_pos cur open_list m] by simp
  finally show ?case by simp
qed

lemma length_expand: "length (expand env goal_pos step_size cur open_list) \<le> length open_list + 27"
  unfolding expand_def
  using length_foldl_expand[of env goal_pos cur open_list "movements step_size"]
        length_movements[of step_size] by linarith

lemma a_star_loop_terminates:
  assumes fin: "finite K"
    and keys: "\<And>n. lattice_node env start_pos step_size n \<Longrightarrow> node_key n \<in> K"
  shows "\<forall>n \<in> set open_list. lattice_node env start_pos step_size n \<Longrightarrow>
         \<exists>r. a_star_loop env goal_pos step_size open_list closed_set = Some r"
proof (induction "28 * card (K - closed_set) + length open_list"
        arbitrary: open_list closed_set rule: less_induct)
  case less
  show ?case
  proof (cases "open_list = []")
    case True
    then show ?thesis by (subst a_star_loop.simps) simp
  next
    case False
    let ?cur = "fst (heappop open_list)"
    let ?rest = "snd (heappop open_list)"
    have cur: "lattice_node env start_pos step_size ?cur"
      using heappop_fst[OF False] less.prems by blast
    have rest: "\<forall>n \<in> set ?rest. lattice_node env start_pos step_size n"
      using set_heappop[OF False] less.prems by blast
    have len: "length ?rest < length open_list"
      using length_heappop[of open_list] False by (cases open_list) simp_all
    show ?thesis
    proof (cases "get_dist (get_pos ?cur) goal_pos < step_size")
      case True
      then show ?thesis using False by (subst a_star_loop.simps) (simp add: Let_def)
    next
      case far: False
      show ?thesis
      proof (cases "node_key ?cur \<in> closed_set")
        case True
        have eq: "a_star_loop env goal_pos step_size open_list closed_set =
                  a_star_loop env goal_pos step_size ?rest closed_set"
          using False far True by (subst a_star_loop.simps) (simp add: Let_def)
        have "\<exists>r. a_star_loop env goal_pos step_size ?rest closed_set = Some r"
          by (rule less.hyps[OF _ rest]) (use len in simp)
        then show ?thesis unfolding eq .
      next
        case new: False
        let ?open = "expand env goal_pos step_size ?cur ?rest"
        let ?closed = "insert (node_key ?cur) closed_set"
        have eq: "a_star_loop env goal_pos step_size open_list closed_set =
                  a_star_loop env goal_pos step_size ?open ?closed"
          using False far new by (subst a_star_loop.simps) (simp add: Let_def)
        have mem: "node_key ?cur \<in> K - closed_set" using keys[OF cur] new by simp
        have "K - ?closed = (K - closed_set) - {node_key ?cur}" by auto
        moreover have "card ((K - closed_set) - {node_key ?cur}) < card (K - closed_set)"
          by (rule card_Diff1_less[OF _ mem]) (use fin in simp)
        ultimately have card: "card (K - ?closed) < card (K - closed_set)" by simp
        have "length ?open \<le> length ?rest + 27" by (rule length_expand)
        then have m: "28 * card (K - ?closed) + length ?open
                   < 28 * card (K - closed_set) + length open_list"
          using card len by linarith
        have "\<exists>r. a_star_loop env goal_pos step_size ?open ?closed = Some r"
          by (rule less.hyps[OF m expand_inv[OF cur rest]])
        then show ?thesis unfolding eq .
      qed
    qed
  qed
qed

text \<open>In a bounded region the search returns, with a path or with the empty sequence.\<close>

lemma a_star_search_terminates:
  assumes "bounded_region env B"
  shows "\<exists>r. a_star_search env start_pos goal_pos step_size = Some r"
proof -
  let ?K = "insert (pos_key start_pos) (pos_key ` {p. \<not> is_outside env p})"
  let ?start = "new_Node (fst start_pos) (fst (snd start_pos)) (snd (snd start_pos))
                         0 (get_dist start_pos goal_pos) None"
  have fin: "finite ?K" using finite_keys[OF assms(1)] by simp
  have keys: "node_key n \<in> ?K" if "lattice_node env start_pos step_size n" for n
    using lattice_pos[OF that] by (auto simp: node_key_pos_key)
  have "lattice_node env start_pos step_size ?start"
    by (rule lattice_node.root) (simp_all add: new_Node_def get_pos_def)
  then have inv: "\<forall>n \<in> set (heappush [] ?start). lattice_node env start_pos step_size n"
    using set_heappush[of "[]" ?start] by auto
  have "\<exists>r. a_star_loop env goal_pos step_size (heappush [] ?start) {} = Some r"
    by (rule a_star_loop_terminates[of ?K env start_pos step_size, OF fin keys inv])
  then show ?thesis by (simp add: a_star_search_def Let_def)
qed

section \<open>Runs on concrete environments\<close>

lemma get_dist_axis: "get_dist (a, b, c) (a', b, c) = \<bar>a - a'\<bar>"
  by (simp add: get_dist_def)

lemma heappush_Nil: "heappush [] n = [n]"
  by (simp add: heappush_def siftdown_def siftdown_loop.simps)

lemma heappop_single: "heappop [n] = (n, [])"
  by (simp add: heappop_def)

lemma expand_corridor_start:
  "expand corridor_env g (1 / 2) (Node 0 0 0 a b c par) [] =
     [new_Node (1 / 2) 0 0 (a + sqrt ((1 / 2)\<^sup>2 + 0\<^sup>2 + 0\<^sup>2)) (get_dist (1 / 2, 0, 0) g) (Some (Node 0 0 0 a b c par))]"
  by (simp add: expand_def movements_def expand_step_def corridor_env_def heappush_Nil Let_def)

lemma run_corridor:
  "a_star_search corridor_env (0, 0, 0) (3 / 4, 0, 0) (1 / 2)
     = Some [(0, 0, 0), (1 / 2, 0, 0), (3 / 4, 0, 0)]"
  unfolding a_star_search_def Let_def heappush_Nil
  apply (subst a_star_loop.simps)
  apply (simp add: heappop_single get_dist_axis get_pos_def new_Node_def power2_eq_square node_key_def Let_def)
  apply (simp add: expand_corridor_start[unfolded new_Node_def])
  apply (subst a_star_loop.simps)
  apply (simp add: heappop_single get_dist_axis get_pos_def new_Node_def finish_def
        reconstruct_path_def power2_eq_square)
  done

text \<open>
  The corridor with the goal at its end: the second expansion pushes two nodes, the
  queue orders them by \<open>f\<close>, and the returned path ends with the last node and the
  goal, both at the goal position.
\<close>

lemma expand_corridor_half:
  "expand corridor_env (1, 0, 0) (1 / 2) (Node (1 / 2) 0 0 a b c par) [] =
     [Node 1 0 0 (a + 1 / 2) 0 (a + 1 / 2) (Some (Node (1 / 2) 0 0 a b c par)),
      Node 0 0 0 (a + 1 / 2) 1 (a + 1 / 2 + 1) (Some (Node (1 / 2) 0 0 a b c par))]"
  apply (simp add: expand_def movements_def expand_step_def corridor_env_def heappush_Nil Let_def
      new_Node_def get_dist_axis)
  apply (simp add: heappush_def siftdown_def siftdown_loop.simps node_lt_def Let_def power2_eq_square real_sqrt_mult)
  done

lemma run_spec_scenario:
  "a_star_search corridor_env (0, 0, 0) (1, 0, 0) (1 / 2)
     = Some [(0, 0, 0), (1 / 2, 0, 0), (1, 0, 0), (1, 0, 0)]"
  unfolding a_star_search_def Let_def heappush_Nil
  apply (subst a_star_loop.simps)
  apply (simp add: heappop_single get_dist_axis get_pos_def new_Node_def node_key_def Let_def)
  apply (simp add: expand_corridor_start[unfolded new_Node_def] get_dist_axis power2_eq_square)
  apply (subst a_star_loop.simps)
  apply (simp add: heappop_single get_dist_axis get_pos_def node_key_def Let_def py_round1_def round_half_even_def)
  apply (simp add: expand_corridor_half)
  apply (subst a_star_loop.simps)
  apply (simp add: heappop_def siftup_def siftup_loop.simps siftdown_def siftdown_loop.simps Let_def
        get_dist_axis get_pos_def finish_def reconstruct_path_def new_Node_def)
  done

section \<open>Time knots and the spline\<close>

lemma length_np_diff: "length (np_diff ps) = length ps - 1"
  by (simp add: np_diff_def)

lemma length_row_norms: "length (row_norms ds) = length ds"
  by (simp add: row_norms_def)

lemma length_cumsum_from: "length (cumsum_from acc ts) = length ts"
  by (induction ts arbitrary: acc) simp_all

lemma cumsum_from_sorted:
  "\<forall>t \<in> set ts. 0 < t \<Longrightarrow> sorted_wrt (<) (acc # cumsum_from acc ts)"
proof (induction ts arbitrary: acc)
  case Nil
  then show ?case by simp
next
  case (Cons t ts)
  have tl: "sorted_wrt (<) ((acc + t) # cumsum_from (acc + t) ts)"
    using Cons.prems by (intro Cons.IH) simp
  have "acc < acc + t" using Cons.prems by simp
  moreover have "\<forall>y \<in> set (cumsum_from (acc + t) ts). acc + t < y" using tl by simp
  ultimately show ?case using tl by force
qed

lemma length_time_knots: "pth \<noteq> [] \<Longrightarrow> length (calculate_time_knots pth v) = length pth"
  by (cases pth) (simp_all add: calculate_time_knots_def Let_def np_cumsum_def length_cumsum_from
       length_row_norms length_np_diff)

lemma sorted_time_knots: "0 < v \<Longrightarrow> sorted_wrt (<) (calculate_time_knots pth v)"
proof -
  assume v: "0 < v"
  let ?ts = "map (\<lambda>d. d / v) (map (\<lambda>d. max d (1 / 1000000)) (row_norms (np_diff pth)))"
  have "\<forall>t \<in> set ?ts. 0 < t"
  proof
    fix t assume "t \<in> set ?ts"
    then obtain d where "t = max d (1 / 1000000) / v" by auto
    moreover have "0 < max d (1 / 1000000)" by simp
    ultimately show "0 < t" using v by simp
  qed
  from cumsum_from_sorted[OF this, of 0] show ?thesis
    by (simp add: calculate_time_knots_def Let_def np_cumsum_def)
qed

lemma hd_time_knots: "hd (calculate_time_knots pth v) = 0"
  by (simp add: calculate_time_knots_def Let_def)

lemma length_np_diff1: "length (np_diff1 xs) = length xs - 1"
  by (simp add: np_diff1_def)

lemma nth_np_diff1: "Suc i < length xs \<Longrightarrow> np_diff1 xs ! i = xs ! Suc i - xs ! i"
  by (simp add: np_diff1_def nth_tl)

lemma find_interval_knot:
  assumes "sorted_wrt (<) xs" and "i < length xs"
  shows "find_interval xs (xs ! i) = min i (length xs - 2)"
proof -
  let ?zs = "butlast (tl xs)"
  let ?k = "min i (length xs - 2)"
  have lz: "length ?zs = length xs - 2" by simp
  have nz: "?zs ! j = xs ! Suc j" if "j < length xs - 2" for j
    using that by (simp add: nth_butlast nth_tl)
  have "takeWhile (\<lambda>b. b \<le> xs ! i) ?zs = take ?k ?zs"
  proof (rule takeWhile_eq_take_P_nth)
    fix j assume j: "j < ?k" "j < length ?zs"
    then have "Suc j \<le> i" by simp
    have "xs ! Suc j \<le> xs ! i"
    proof (cases "Suc j = i")
      case True
      then show ?thesis by simp
    next
      case False
      with \<open>Suc j \<le> i\<close> have "Suc j < i" by simp
      then have "xs ! Suc j < xs ! i"
        using assms by (simp add: sorted_wrt_iff_nth_less)
      then show ?thesis by simp
    qed
    then show "?zs ! j \<le> xs ! i" using j nz by simp
  next
    assume k: "?k < length ?zs"
    then have ki: "?k = i" and "Suc i < length xs" by auto
    then have "xs ! i < xs ! Suc i" using assms(1) by (simp add: sorted_wrt_iff_nth_less)
    then show "\<not> ?zs ! ?k \<le> xs ! i" using k nz[of i] ki by simp
  qed
  then show ?thesis by (simp add: find_interval_def)
qed

lemma hermite_end:
  fixes h :: real
  assumes "h \<noteq> 0"
  shows "(let t = (s0 + s1 - 2 * ((y1 - y0) / h)) / h
          in (t / h) * h ^ 3 + (((y1 - y0) / h - s0) / h - t) * h\<^sup>2 + s0 * h + y0) = y1"
  using assms by (simp add: Let_def field_simps power2_eq_square power3_eq_cube)

lemma length_eliminate: "length (eliminate cp bp rows) = length rows"
  by (induction rows arbitrary: cp bp) (auto simp: Let_def)

lemma length_back_substitute: "length (back_substitute cs) = length cs"
  by (induction cs) (auto split: list.splits)

lemma length_solve_banded: "length (solve_banded rows) = length rows"
  by (simp add: solve_banded_def length_back_substitute length_eliminate)

lemma CubicSpline_ok:
  assumes "2 \<le> length xs" and "length xs = length ys" and "sorted_wrt (<) xs"
  shows "\<exists>pp. CubicSpline xs ys = Inr pp \<and> pp_x pp = xs \<and> length (pp_c pp) = length xs - 1"
  using assms by (simp add: CubicSpline_def Let_def)

lemma CubicSpline_interpolates:
  assumes len: "2 \<le> length xs" and eq: "length xs = length ys" and sorted: "sorted_wrt (<) xs"
    and cs: "CubicSpline xs ys = Inr pp" and i: "i < length xs"
  shows "ppoly_call pp (xs ! i) = ys ! i"
proof -
  let ?n = "length xs"
  let ?dx = "np_diff1 xs"
  let ?slope = "map (\<lambda>(dy, h). dy / h) (zip (np_diff1 ys) ?dx)"
  let ?s = "solve_banded (clamped_rows ?dx ?slope)"
  let ?F = "\<lambda>i. (let t = (?s ! i + ?s ! (i + 1) - 2 * ?slope ! i) / ?dx ! i
                in (t / ?dx ! i, (?slope ! i - ?s ! i) / ?dx ! i - t, ?s ! i, ys ! i))"
  define k where "k = min i (?n - 2)"
  have pp: "pp = \<lparr>pp_c = map ?F [0 ..< ?n - 1], pp_x = xs\<rparr>"
    using cs len eq sorted by (simp add: CubicSpline_def Let_def)
  have k: "k < ?n - 1" using len by (auto simp: k_def)
  have fi: "find_interval (pp_x pp) (xs ! i) = k"
    using find_interval_knot[OF sorted i] by (simp add: pp k_def)
  have ck: "pp_c pp ! k = ?F k" using k by (simp add: pp del: upt_Suc)
  have val: "ppoly_call pp (xs ! i) =
       (case ?F k of (c0, c1, c2, c3) \<Rightarrow>
          c0 * (xs ! i - xs ! k) ^ 3 + c1 * (xs ! i - xs ! k)\<^sup>2 + c2 * (xs ! i - xs ! k) + c3)"
    unfolding ppoly_call_def fi Let_def ck by (simp add: pp)
  show ?thesis
  proof (cases "i \<le> ?n - 2")
    case True
    then have "k = i" by (simp add: k_def)
    then show ?thesis unfolding val by (simp add: Let_def)
  next
    case False
    then have sk: "Suc k = i" using i len by (auto simp: k_def)
    have skn: "Suc k < ?n" using sk i by simp
    have dxk: "?dx ! k = xs ! i - xs ! k"
      using nth_np_diff1[OF skn] by (simp only: sk)
    have dyk: "np_diff1 ys ! k = ys ! i - ys ! k"
      using nth_np_diff1[of k ys] skn eq by (simp only: sk)
    have slk: "?slope ! k = (ys ! i - ys ! k) / (xs ! i - xs ! k)"
      using k eq by (simp add: length_np_diff1 dxk dyk)
    have "xs ! k < xs ! i"
      using sorted skn sk by (simp add: sorted_wrt_iff_nth_less)
    then have h: "xs ! i - xs ! k \<noteq> 0" by simp
    show ?thesis
      unfolding val using hermite_end[OF h, of "?s ! k" "?s ! (k + 1)" "ys ! i" "ys ! k"]
      by (simp add: Let_def slk dxk)
  qed
qed

lemma init_fitted:
  assumes "2 \<le> length (deduplicate raw_path)" and "0 < v"
  shows "\<exists>cs_x cs_y cs_z.
           CubicSpline (calculate_time_knots (deduplicate raw_path) v)
             (map fst (deduplicate raw_path)) = Inr cs_x \<and>
           CubicSpline (calculate_time_knots (deduplicate raw_path) v)
             (map (\<lambda>p. fst (snd p)) (deduplicate raw_path)) = Inr cs_y \<and>
           CubicSpline (calculate_time_knots (deduplicate raw_path) v)
             (map (\<lambda>p. snd (snd p)) (deduplicate raw_path)) = Inr cs_z \<and>
           TrajectoryGenerator_init raw_path v =
             Inr \<lparr>tg_path = deduplicate raw_path,
                  tg_time_knots = calculate_time_knots (deduplicate raw_path) v,
                  tg_avg_speed = Some v,
                  tg_cs_x = Some cs_x, tg_cs_y = Some cs_y, tg_cs_z = Some cs_z\<rparr>"
proof -
  let ?pth = "deduplicate raw_path"
  let ?K = "calculate_time_knots ?pth v"
  have ne: "?pth \<noteq> []" using assms(1) by auto
  have lenK: "length ?K = length ?pth" by (rule length_time_knots[OF ne])
  have len2: "2 \<le> length ?K" using assms(1) lenK by simp
  have sorted: "sorted_wrt (<) ?K" by (rule sorted_time_knots[OF assms(2)])
  obtain cs_x where x: "CubicSpline ?K (map fst ?pth) = Inr cs_x"
    using CubicSpline_ok[OF len2 _ sorted, of "map fst ?pth"] lenK by auto
  obtain cs_y where y: "CubicSpline ?K (map (\<lambda>p. fst (snd p)) ?pth) = Inr cs_y"
    using CubicSpline_ok[OF len2 _ sorted, of "map (\<lambda>p. fst (snd p)) ?pth"] lenK by auto
  obtain cs_z where z: "CubicSpline ?K (map (\<lambda>p. snd (snd p)) ?pth) = Inr cs_z"
    using CubicSpline_ok[OF len2 _ sorted, of "map (\<lambda>p. snd (snd p)) ?pth"] lenK by auto
  have "TrajectoryGenerator_init raw_path v =
             Inr \<lparr>tg_path = ?pth, tg_time_knots = ?K, tg_avg_speed = Some v,
                  tg_cs_x = Some cs_x, tg_cs_y = Some cs_y, tg_cs_z = Some cs_z\<rparr>"
    using assms by (simp add: TrajectoryGenerator_init_def Let_def x y z)
  with x y z show ?thesis by blast
qed

text \<open>The sampling times of \<open>solve\<close>.\<close>

lemma arange_last_less:
  assumes "0 < total_time" and "0 < dt"
  shows "nat \<lceil>total_time / dt\<rceil> \<noteq> 0 \<and> real (nat \<lceil>total_time / dt\<rceil> - 1) * dt < total_time"
proof -
  let ?N = "nat \<lceil>total_time / dt\<rceil>"
  have pos: "0 < total_time / dt" using assms by simp
  then have c: "0 < \<lceil>total_time / dt\<rceil>" by linarith
  then have N1: "1 \<le> ?N" by linarith
  then have N: "?N \<noteq> 0" by linarith
  have "real ?N = of_int \<lceil>total_time / dt\<rceil>" using c by simp
  moreover have "of_int \<lceil>total_time / dt\<rceil> - 1 < total_time / dt" by linarith
  moreover have "real (?N - 1) = real ?N - 1" using N1 by (simp add: of_nat_diff)
  ultimately have "real (?N - 1) < total_time / dt" by simp
  then have "real (?N - 1) * dt < total_time" using assms(2) by (simp add: pos_less_divide_eq)
  with N show ?thesis by simp
qed

lemma solve_fitted:
  assumes tg: "tg = \<lparr>tg_path = pth, tg_time_knots = K, tg_avg_speed = Some v,
                     tg_cs_x = Some cs_x, tg_cs_y = Some cs_y, tg_cs_z = Some cs_z\<rparr>"
    and pth: "2 \<le> length pth" and total_time: "0 < last K" and dt: "0 < dt"
  shows "solve tg dt =
           Inr (map (\<lambda>i. 0 + real i * dt) [0 ..< nat \<lceil>(last K - 0) / dt\<rceil>] @ [last K],
                map (ppoly_call cs_x) (map (\<lambda>i. 0 + real i * dt) [0 ..< nat \<lceil>(last K - 0) / dt\<rceil>] @ [last K]),
                map (ppoly_call cs_y) (map (\<lambda>i. 0 + real i * dt) [0 ..< nat \<lceil>(last K - 0) / dt\<rceil>] @ [last K]),
                map (ppoly_call cs_z) (map (\<lambda>i. 0 + real i * dt) [0 ..< nat \<lceil>(last K - 0) / dt\<rceil>] @ [last K]))"
proof -
  let ?N = "nat \<lceil>(last K - 0) / dt\<rceil>"
  let ?ts = "map (\<lambda>i. 0 + real i * dt) [0 ..< ?N]"
  from arange_last_less[OF total_time dt] have N: "?N \<noteq> 0" and l: "real (?N - 1) * dt < last K"
    by simp_all
  have ar: "np_arange 0 (last K) dt = Inr ?ts" using dt by (simp add: np_arange_def)
  have ne: "?ts \<noteq> []" using N by simp
  have "last ?ts = 0 + real (?N - 1) * dt"
    using N by (simp add: last_map last_upt del: upt_Suc)
  then have lt: "last ?ts < last K" using l by simp
  show ?thesis
    unfolding solve_def Let_def tg using pth ne lt by (simp add: ar del: upt_Suc)
qed

lemma last_time_knots_pos:
  assumes "2 \<le> length pth" and "0 < v"
  shows "0 < last (calculate_time_knots pth v)"
proof -
  let ?K = "calculate_time_knots pth v"
  have ne: "pth \<noteq> []" using assms(1) by auto
  have len: "length ?K = length pth" by (rule length_time_knots[OF ne])
  have "?K ! 0 < ?K ! (length ?K - 1)"
    using sorted_time_knots[OF assms(2), of pth] assms(1) len
    by (simp add: sorted_wrt_iff_nth_less)
  moreover have Kne: "?K \<noteq> []" using len ne by auto
  have "?K ! 0 = 0" using hd_time_knots[of pth v] hd_conv_nth[OF Kne] by simp
  moreover have "?K ! (length ?K - 1) = last ?K" using last_conv_nth[OF Kne] by simp
  ultimately show ?thesis by simp
qed

lemma sorted_samples:
  assumes "0 < dt" and "N \<noteq> 0" and "real (N - 1) * dt < total_time"
  shows "sorted_wrt (<) (map (\<lambda>i. 0 + real i * dt) [0 ..< N] @ [total_time])"
proof -
  have "sorted_wrt (<) (map (\<lambda>i. 0 + real i * dt) [0 ..< N])"
    using assms(1) by (simp add: sorted_wrt_map sorted_wrt_iff_nth_less)
  moreover have "\<forall>t \<in> set (map (\<lambda>i. 0 + real i * dt) [0 ..< N]). t < total_time"
  proof
    fix t assume "t \<in> set (map (\<lambda>i. 0 + real i * dt) [0 ..< N])"
    then obtain i where i: "i < N" and t: "t = real i * dt" by auto
    from i have "real i \<le> real (N - 1)" by simp
    then have "real i * dt \<le> real (N - 1) * dt" using assms(1) by (simp add: mult_right_mono)
    with assms(3) t show "t < total_time" by simp
  qed
  ultimately show ?thesis by (simp add: sorted_wrt_append)
qed

section \<open>Degenerate configurations and concrete inputs\<close>

lemma row_norms_Nil: "row_norms [] = []"
  by (simp add: row_norms_def)

lemma row_norms_axis: "row_norms ((a, 0, 0) # ds) = \<bar>a\<bar> # row_norms ds"
  by (simp add: row_norms_def)

lemma dedup_scenario: "deduplicate [(0, 0, 0), (0, 0, 0), (3, 0, 0)] = [(0, 0, 0), (3, 0, 0)]"
  by (simp add: deduplicate_def np_diff_def Let_def row_norms_axis row_norms_Nil select_mask_def)

lemma dedup_failing:
  "deduplicate [(0, 0, 0), (8 / 10000, 0, 0), (16 / 10000, 0, 0), (0, 0, 0)] = [(0, 0, 0), (0, 0, 0)]"
  by (simp add: deduplicate_def np_diff_def Let_def row_norms_axis row_norms_Nil select_mask_def)

lemma dedup_single: "deduplicate [(5, 5, 5)] = [(5, 5, 5)]"
  by (simp add: deduplicate_def np_diff_def Let_def row_norms_Nil select_mask_def)

lemma hd_deduplicate: "raw_path \<noteq> [] \<Longrightarrow> deduplicate raw_path \<noteq> [] \<and> hd (deduplicate raw_path) = hd raw_path"
  by (cases raw_path) (simp_all add: deduplicate_def Let_def select_mask_def)

text \<open>Planner with a non-positive step.\<close>

lemma get_dist_nonneg: "0 \<le> get_dist p q"
  by (simp add: get_dist_def)

lemma movements_zero: "movements 0 = []"
  by (simp add: movements_def)

lemma zero_step: "a_star_search env start_pos goal_pos 0 = Some []"
proof -
  let ?start = "new_Node (fst start_pos) (fst (snd start_pos)) (snd (snd start_pos))
                         0 (get_dist start_pos goal_pos) None"
  have far: "\<not> get_dist (get_pos ?start) goal_pos < 0"
    using get_dist_nonneg[of "get_pos ?start" goal_pos] by simp
  have "a_star_loop env goal_pos 0 [?start] {} = a_star_loop env goal_pos 0 [] {node_key ?start}"
    by (subst a_star_loop.simps) (simp add: heappop_single far Let_def expand_def movements_zero)
  also have "\<dots> = Some []" by (subst a_star_loop.simps) simp
  finally show ?thesis by (simp add: a_star_search_def Let_def heappush_Nil)
qed

lemma nonpositive_step:
  assumes "step_size \<le> 0" and "a_star_search env start_pos goal_pos step_size = Some pth"
  shows "pth = []"
proof (rule ccontr)
  assume "pth \<noteq> []"
  with a_star_search_result[OF assms(2)] obtain cur where
    "get_dist (get_pos cur) goal_pos < step_size" by (auto simp: found_def)
  with get_dist_nonneg[of "get_pos cur" goal_pos] assms(1) show False by simp
qed

text \<open>Trajectory generator with a non-positive average speed.\<close>

lemma init_degenerate:
  "length (deduplicate raw_path) < 2 \<Longrightarrow>
   TrajectoryGenerator_init raw_path v =
     Inr \<lparr>tg_path = deduplicate raw_path, tg_time_knots = [0], tg_avg_speed = None,
          tg_cs_x = None, tg_cs_y = None, tg_cs_z = None\<rparr>"
  by (simp add: TrajectoryGenerator_init_def Let_def)

lemma time_knots_second:
  assumes "2 \<le> length pth"
  shows "calculate_time_knots pth v ! 1 = max (hd (row_norms (np_diff pth))) (1 / 1000000) / v"
proof -
  have "length (row_norms (np_diff pth)) \<noteq> 0"
    using assms by (simp add: length_row_norms length_np_diff)
  then obtain d ds where "row_norms (np_diff pth) = d # ds"
    by (cases "row_norms (np_diff pth)") auto
  then show ?thesis by (simp add: calculate_time_knots_def Let_def np_cumsum_def)
qed

lemma init_nonpositive_speed:
  assumes "2 \<le> length (deduplicate raw_path)" and "v \<le> 0"
  shows "TrajectoryGenerator_init raw_path v = Inl ValueError"
proof (cases "v = 0")
  case True
  then show ?thesis using assms(1) by (simp add: TrajectoryGenerator_init_def Let_def)
next
  case False
  let ?pth = "deduplicate raw_path"
  let ?K = "calculate_time_knots ?pth v"
  have v: "v < 0" using False assms(2) by simp
  have ne: "?pth \<noteq> []" using assms(1) by auto
  have lenK: "length ?K = length ?pth" by (rule length_time_knots[OF ne])
  have Kne: "?K \<noteq> []" using lenK ne by auto
  have "0 < max (hd (row_norms (np_diff ?pth))) (1 / 1000000)" by simp
  then have "?K ! 1 < 0" unfolding time_knots_second[OF assms(1)] using v
    by (simp add: divide_neg_neg divide_pos_neg)
  moreover have "?K ! 0 = 0" using hd_time_knots[of ?pth v] hd_conv_nth[OF Kne] by simp
  ultimately have "\<not> ?K ! 0 < ?K ! 1" by simp
  have "\<not> sorted_wrt (<) ?K"
  proof
    assume "sorted_wrt (<) ?K"
    moreover have "(0::nat) < 1" "1 < length ?K" using assms(1) lenK by simp_all
    ultimately have "?K ! 0 < ?K ! 1" by (rule sorted_wrt_nth_less)
    with \<open>\<not> ?K ! 0 < ?K ! 1\<close> show False by simp
  qed
  then have "CubicSpline ?K ys = Inl ValueError" for ys
    by (simp add: CubicSpline_def)
  then show ?thesis using assms(1) False by (simp add: TrajectoryGenerator_init_def Let_def)
qed

text \<open>The corridor: bounded, and a far goal is unreachable.\<close>

lemma bounded_corridor: "bounded_region corridor_env 1"
  by (auto simp: bounded_region_def corridor_env_def)

lemma reachable_corridor:
  "reachable corridor_env (0, 0, 0) s p \<Longrightarrow> fst p \<le> 1 \<and> fst (snd p) = 0 \<and> snd (snd p) = 0"
  by (induction rule: reachable.induct) (auto simp: corridor_env_def)

lemma unreachable_corridor: "goal_unreachable corridor_env (0, 0, 0) (5, 0, 0) (1 / 2)"
  unfolding goal_unreachable_def
proof (intro allI impI)
  fix p assume "reachable corridor_env (0, 0, 0) (1 / 2) p"
  from reachable_corridor[OF this] obtain a where p: "p = (a, 0, 0)" and a: "a \<le> 1"
    by (cases p) auto
  show "\<not> get_dist p (5, 0, 0) < 1 / 2" using a by (simp add: p get_dist_axis)
qed

text \<open>Keys.\<close>

lemma py_round1_quarter: "py_round1 (1 / 4) = 1 / 5"
  by (simp add: py_round1_def round_half_even_def Let_def)

lemma py_round1_zero: "py_round1 0 = 0"
  by (simp add: py_round1_def round_half_even_def Let_def)

lemma py_round1_tenth: "\<exists>k::int. py_round1 v * 10 = of_int k"
  by (simp add: py_round1_def)

lemma py_round1_near: "\<bar>py_round1 v - v\<bar> \<le> 1 / 20"
proof -
  have "\<bar>of_int (round_half_even w) - w\<bar> \<le> 1 / 2" for w :: real
    unfolding round_half_even_def Let_def by (auto; linarith)
  from this[of "v * 10"] show ?thesis by (simp add: py_round1_def field_simps)
qed

section \<open>The claims\<close>

subsection \<open>Planner\<close>

text \<open>
  The start node is inserted without a query to the environment; every later node is
  created only at a position that is neither outside nor colliding. So in every
  non-empty sequence the planner returns, the waypoints strictly between the first and
  the last are valid, whatever the start position is.
\<close>

lemma intermediate_waypoints_valid:
  assumes "a_star_search env start_pos goal_pos step_size = Some pth" and "pth \<noteq> []"
  shows "\<forall>p \<in> set (tl (butlast pth)). valid_pos env p"
proof -
  from a_star_search_result[OF assms(1)] assms(2)
  obtain cur where cur: "lattice_node env start_pos step_size cur"
    and pth: "pth = rev (backtrack cur) @ [goal_pos]"
    by (auto simp: found_def)
  have ne: "backtrack cur \<noteq> []" by (rule backtrack_nonempty)
  have bl: "butlast pth = rev (backtrack cur)" by (simp add: pth butlast_append)
  have tl: "tl (rev (backtrack cur)) = rev (butlast (backtrack cur))"
    using ne by (metis butlast_rev rev_rev_ident)
  show ?thesis using lattice_valid[OF cur] by (simp add: bl tl)
qed

text \<open>
  C1. The planner's contract assumes a valid start position (the planner does not check
  it). For every non-empty waypoint sequence the planner returns for a valid start,
  every waypoint of the sequence is neither outside nor colliding, the final waypoint
  (the synthesized goal) exempt.
\<close>

theorem C1_waypoints_valid:
  assumes "a_star_search env start_pos goal_pos step_size = Some pth" and "pth \<noteq> []"
    and "valid_pos env start_pos"
  shows "\<forall>p \<in> set (butlast pth). \<not> is_outside env p \<and> \<not> is_collide env p"
proof -
  from a_star_search_result[OF assms(1)] assms(2)
  obtain cur where cur: "lattice_node env start_pos step_size cur"
    and pth: "pth = rev (backtrack cur) @ [goal_pos]"
    by (auto simp: found_def)
  have ne: "backtrack cur \<noteq> []" by (rule backtrack_nonempty)
  have bl: "butlast pth = rev (backtrack cur)" by (simp add: pth butlast_append)
  have "set (backtrack cur) = insert (last (backtrack cur)) (set (butlast (backtrack cur)))"
    using ne by (metis append_butlast_last_id list.simps(15) rotate1.simps(2) set_rotate1)
  then have "\<forall>p \<in> set (butlast pth). valid_pos env p"
    using lattice_valid[OF cur] lattice_last[OF cur] assms(3) by (auto simp: bl)
  then show ?thesis by (simp add: valid_pos_def)
qed

theorem C1_witness:
  "a_star_search corridor_env (0, 0, 0) (3 / 4, 0, 0) (1 / 2)
     = Some [(0, 0, 0), (1 / 2, 0, 0), (3 / 4, 0, 0)] \<and>
   [(0 :: real, 0 :: real, 0 :: real), (1 / 2, 0, 0), (3 / 4, 0, 0)] \<noteq> [] \<and>
   valid_pos corridor_env (0, 0, 0) \<and>
   \<not> is_outside corridor_env (1 / 2, 0, 0) \<and> \<not> is_collide corridor_env (1 / 2, 0, 0)"
proof -
  have ne: "[(0 :: real, 0 :: real, 0 :: real), (1 / 2, 0, 0), (3 / 4, 0, 0)] \<noteq> []" by simp
  have v: "valid_pos corridor_env (0, 0, 0)" by (simp add: valid_pos_def corridor_env_def)
  from C1_waypoints_valid[OF run_corridor ne v] run_corridor v show ?thesis by simp
qed

text \<open>
  C2. In an environment whose boundary region is bounded and in which the goal is
  unreachable (no position of the reachable lattice is within one step of it), the
  search terminates and returns the empty sequence.
\<close>

theorem C2_unreachable_goal_terminates_empty:
  assumes "bounded_region env B"
    and "goal_unreachable env start_pos goal_pos step_size"
  shows "a_star_search env start_pos goal_pos step_size = Some []"
proof -
  from a_star_search_terminates[OF assms(1)]
  obtain r where r: "a_star_search env start_pos goal_pos step_size = Some r" by blast
  have "r = []"
  proof (rule ccontr)
    assume "r \<noteq> []"
    with a_star_search_result[OF r] obtain cur where
      cur: "lattice_node env start_pos step_size cur" and
      near: "get_dist (get_pos cur) goal_pos < step_size"
      by (auto simp: found_def)
    from lattice_reachable[OF cur] assms(2) near show False
      unfolding goal_unreachable_def by blast
  qed
  with r show ?thesis by simp
qed

theorem C2_witness:
  "bounded_region corridor_env 1 \<and>
   goal_unreachable corridor_env (0, 0, 0) (5, 0, 0) (1 / 2) \<and>
   a_star_search corridor_env (0, 0, 0) (5, 0, 0) (1 / 2) = Some []"
  using C2_unreachable_goal_terminates_empty[OF bounded_corridor unreachable_corridor]
        bounded_corridor unreachable_corridor
  by simp

text \<open>
  C7, as the code has it. The key of an extracted node is its coordinates rounded to
  one decimal place, whatever the step size. An extracted node that is not within one
  step of the goal is skipped without expansion when its key is in the closed set;
  otherwise its key is inserted and the node is expanded. Inserting a key twice is
  inserting it once.
\<close>

theorem C7_key_one_decimal_and_closed_set:
  assumes "open_list \<noteq> []"
    and "\<not> get_dist (get_pos (fst (heappop open_list))) goal_pos < step_size"
  shows "one_decimal (node_x (fst (heappop open_list))) (fst (node_key (fst (heappop open_list)))) \<and>
         one_decimal (node_y (fst (heappop open_list)))
           (fst (snd (node_key (fst (heappop open_list))))) \<and>
         one_decimal (node_z (fst (heappop open_list)))
           (snd (snd (node_key (fst (heappop open_list))))) \<and>
         (node_key (fst (heappop open_list)) \<in> closed_set \<longrightarrow>
            a_star_loop env goal_pos step_size open_list closed_set =
            a_star_loop env goal_pos step_size (snd (heappop open_list)) closed_set) \<and>
         (node_key (fst (heappop open_list)) \<notin> closed_set \<longrightarrow>
            a_star_loop env goal_pos step_size open_list closed_set =
            a_star_loop env goal_pos step_size
              (expand env goal_pos step_size (fst (heappop open_list)) (snd (heappop open_list)))
              (insert (node_key (fst (heappop open_list))) closed_set)) \<and>
         insert (node_key (fst (heappop open_list)))
           (insert (node_key (fst (heappop open_list))) closed_set) =
           insert (node_key (fst (heappop open_list))) closed_set"
proof -
  have "one_decimal v (py_round1 v)" for v
    unfolding one_decimal_def using py_round1_tenth[of v] py_round1_near[of v] by simp
  then have keys: "one_decimal (node_x n) (fst (node_key n)) \<and>
      one_decimal (node_y n) (fst (snd (node_key n))) \<and>
      one_decimal (node_z n) (snd (snd (node_key n)))" for n
    by (simp add: node_key_def)
  have "(node_key (fst (heappop open_list)) \<in> closed_set \<longrightarrow>
            a_star_loop env goal_pos step_size open_list closed_set =
            a_star_loop env goal_pos step_size (snd (heappop open_list)) closed_set) \<and>
         (node_key (fst (heappop open_list)) \<notin> closed_set \<longrightarrow>
            a_star_loop env goal_pos step_size open_list closed_set =
            a_star_loop env goal_pos step_size
              (expand env goal_pos step_size (fst (heappop open_list)) (snd (heappop open_list)))
              (insert (node_key (fst (heappop open_list))) closed_set))"
    using assms by (subst (1 2) a_star_loop.simps) (simp add: Let_def)
  with keys[of "fst (heappop open_list)"] show ?thesis by simp
qed

theorem C7_witness:
  "[Node (1 / 4) 0 0 0 1 1 None] \<noteq> [] \<and>
   \<not> get_dist (get_pos (fst (heappop [Node (1 / 4) 0 0 0 1 1 None]))) (5, 0, 0) < 1 / 4 \<and>
   one_decimal (1 / 4) (1 / 5) \<and>
   node_key (Node (1 / 4) 0 0 0 1 1 None) \<in> {(1 / 5, 0, 0)} \<and>
   a_star_loop corridor_env (5, 0, 0) (1 / 4) [Node (1 / 4) 0 0 0 1 1 None] {(1 / 5, 0, 0)} =
   a_star_loop corridor_env (5, 0, 0) (1 / 4) [] {(1 / 5, 0, 0)} \<and>
   node_key (Node (1 / 4) 0 0 0 1 1 None) \<notin> {} \<and>
   a_star_loop corridor_env (5, 0, 0) (1 / 4) [Node (1 / 4) 0 0 0 1 1 None] {} =
   a_star_loop corridor_env (5, 0, 0) (1 / 4)
     (expand corridor_env (5, 0, 0) (1 / 4) (Node (1 / 4) 0 0 0 1 1 None) []) {(1 / 5, 0, 0)}"
proof -
  let ?n = "Node (1 / 4) 0 0 0 1 1 None"
  have ne: "[?n] \<noteq> []" by simp
  have far: "\<not> get_dist (get_pos (fst (heappop [?n]))) (5, 0, 0) < 1 / 4"
    by (simp add: heappop_single get_pos_def get_dist_axis)
  have key: "node_key ?n = (1 / 5, 0, 0)"
    by (simp add: node_key_def py_round1_quarter py_round1_zero)
  from C7_key_one_decimal_and_closed_set[OF ne far, of "{(1 / 5, 0, 0)}" corridor_env]
       C7_key_one_decimal_and_closed_set[OF ne far, of "{}" corridor_env]
       ne far key
  show ?thesis by (simp add: heappop_single)
qed

text \<open>
  C7 as stated (the key is the coordinates rounded to the lattice resolution, the step
  size) fails. With step size 1/4 the lattice position 1/4 has the key 1/5, while
  rounding to the resolution 1/4 leaves it at 1/4. With step size 1/32 the start
  position 0 and its neighbour 1/32 have the same key, although they are different
  positions of the lattice.
\<close>

theorem C7_counterexample:
  "node_key (new_Node (1 / 4) 0 0 0 (get_dist (1 / 4, 0, 0) (1, 0, 0)) None) = (1 / 5, 0, 0) \<and>
   lattice_key (1 / 4) (new_Node (1 / 4) 0 0 0 (get_dist (1 / 4, 0, 0) (1, 0, 0)) None)
     = (1 / 4, 0, 0) \<and>
   node_key (Node 0 0 0 0 1 1 None) = node_key (Node (1 / 32) 0 0 (1 / 32) 1 1 None) \<and>
   lattice_key (1 / 32) (Node 0 0 0 0 1 1 None)
     \<noteq> lattice_key (1 / 32) (Node (1 / 32) 0 0 (1 / 32) 1 1 None)"
  by (simp add: node_key_def new_Node_def py_round1_def lattice_key_def
        round_to_resolution_def round_half_even_def)

text \<open>
  C8. For every waypoint sequence returned with a step size \<open>s > 0\<close>, the distance
  between consecutive waypoints is \<open>s\<close>, \<open>s * sqrt 2\<close> or \<open>s * sqrt 3\<close>, for every
  pair but the final one (the segment to the goal).
\<close>

theorem C8_consecutive_distances:
  assumes "a_star_search env start_pos goal_pos step_size = Some pth" and "0 < step_size"
  shows "\<forall>i. Suc (Suc i) < length pth \<longrightarrow>
           get_dist (pth ! i) (pth ! Suc i) \<in> {step_size, step_size * sqrt 2, step_size * sqrt 3}"
proof (cases "pth = []")
  case True
  then show ?thesis by simp
next
  case False
  from a_star_search_result[OF assms(1)] False
  obtain cur where cur: "lattice_node env start_pos step_size cur"
    and pth: "pth = rev (backtrack cur) @ [goal_pos]"
    by (auto simp: found_def)
  let ?bt = "backtrack cur"
  show ?thesis
  proof (intro allI impI)
    fix i assume "Suc (Suc i) < length pth"
    then have i: "Suc i < length ?bt" by (simp add: pth)
    let ?j = "length ?bt - Suc (Suc i)"
    have j: "Suc ?j < length ?bt" using i by simp
    have a: "pth ! i = ?bt ! Suc ?j"
      using i by (simp add: pth nth_append rev_nth Suc_diff_Suc)
    have b: "pth ! Suc i = ?bt ! ?j"
      using i by (simp add: pth nth_append rev_nth)
    show "get_dist (pth ! i) (pth ! Suc i) \<in> {step_size, step_size * sqrt 2, step_size * sqrt 3}"
      unfolding a b using lattice_steps[OF cur assms(2)] j by blast
  qed
qed

theorem C8_witness:
  "a_star_search corridor_env (0, 0, 0) (1, 0, 0) (1 / 2)
     = Some [(0, 0, 0), (1 / 2, 0, 0), (1, 0, 0), (1, 0, 0)] \<and>
   (0 :: real) < 1 / 2 \<and>
   get_dist (0, 0, 0) (1 / 2, 0, 0) \<in> {1 / 2, 1 / 2 * sqrt 2, 1 / 2 * sqrt 3} \<and>
   get_dist (1 / 2, 0, 0) (1, 0, 0) \<in> {1 / 2, 1 / 2 * sqrt 2, 1 / 2 * sqrt 3}"
proof -
  have h: "(0 :: real) < 1 / 2" by simp
  from C8_consecutive_distances[OF run_spec_scenario h, THEN spec, of 0]
       C8_consecutive_distances[OF run_spec_scenario h, THEN spec, of 1]
       run_spec_scenario h
  show ?thesis by simp
qed

text \<open>
  C9. A non-empty sequence returned by the planner has at least two elements, begins
  with exactly the given start position and ends with exactly the given goal position.
\<close>

theorem C9_start_and_goal_exact:
  assumes "a_star_search env start_pos goal_pos step_size = Some pth" and "pth \<noteq> []"
  shows "2 \<le> length pth \<and> hd pth = start_pos \<and> last pth = goal_pos"
proof -
  from a_star_search_result[OF assms(1)] assms(2)
  obtain cur where cur: "lattice_node env start_pos step_size cur"
    and pth: "pth = rev (backtrack cur) @ [goal_pos]"
    by (auto simp: found_def)
  have ne: "backtrack cur \<noteq> []" by (rule backtrack_nonempty)
  then have "1 \<le> length (backtrack cur)" by (cases "backtrack cur") simp_all
  then have "2 \<le> length pth" by (simp add: pth)
  moreover have "hd pth = start_pos"
    using ne lattice_last[OF cur] by (simp add: pth hd_rev)
  moreover have "last pth = goal_pos" by (simp add: pth)
  ultimately show ?thesis by blast
qed

theorem C9_witness:
  "a_star_search corridor_env (0, 0, 0) (3 / 4, 0, 0) (1 / 2)
     = Some [(0, 0, 0), (1 / 2, 0, 0), (3 / 4, 0, 0)] \<and>
   [(0 :: real, 0 :: real, 0 :: real), (1 / 2, 0, 0), (3 / 4, 0, 0)] \<noteq> [] \<and>
   2 \<le> length [(0 :: real, 0 :: real, 0 :: real), (1 / 2, 0, 0), (3 / 4, 0, 0)] \<and>
   hd [(0 :: real, 0 :: real, 0 :: real), (1 / 2, 0, 0), (3 / 4, 0, 0)] = (0, 0, 0) \<and>
   last [(0 :: real, 0 :: real, 0 :: real), (1 / 2, 0, 0), (3 / 4, 0, 0)] = (3 / 4, 0, 0)"
  using C9_start_and_goal_exact[OF run_corridor] run_corridor by simp

subsection \<open>Trajectory generator\<close>

text \<open>
  C3. For a waypoint list with at least two points after deduplication and a positive
  average speed, the constructor succeeds, there is one time knot per retained
  waypoint, and each of the three splines evaluated at the time knot of a waypoint
  returns exactly that waypoint's coordinate on its axis.
\<close>

theorem C3_spline_interpolates_waypoints:
  assumes "2 \<le> length (deduplicate raw_path)" and "0 < v"
  shows "\<exists>tg cs_x cs_y cs_z.
           TrajectoryGenerator_init raw_path v = Inr tg \<and>
           tg_path tg = deduplicate raw_path \<and>
           length (tg_time_knots tg) = length (tg_path tg) \<and>
           tg_cs_x tg = Some cs_x \<and> tg_cs_y tg = Some cs_y \<and> tg_cs_z tg = Some cs_z \<and>
           (\<forall>i < length (tg_path tg).
              ppoly_call cs_x (tg_time_knots tg ! i) = fst (tg_path tg ! i) \<and>
              ppoly_call cs_y (tg_time_knots tg ! i) = fst (snd (tg_path tg ! i)) \<and>
              ppoly_call cs_z (tg_time_knots tg ! i) = snd (snd (tg_path tg ! i)))"
proof -
  let ?pth = "deduplicate raw_path"
  let ?K = "calculate_time_knots ?pth v"
  have ne: "?pth \<noteq> []" using assms(1) by auto
  have lenK: "length ?K = length ?pth" by (rule length_time_knots[OF ne])
  have len2: "2 \<le> length ?K" using assms(1) lenK by simp
  have sorted: "sorted_wrt (<) ?K" by (rule sorted_time_knots[OF assms(2)])
  from init_fitted[OF assms] obtain cs_x cs_y cs_z where
    x: "CubicSpline ?K (map fst ?pth) = Inr cs_x" and
    y: "CubicSpline ?K (map (\<lambda>p. fst (snd p)) ?pth) = Inr cs_y" and
    z: "CubicSpline ?K (map (\<lambda>p. snd (snd p)) ?pth) = Inr cs_z" and
    tg: "TrajectoryGenerator_init raw_path v =
             Inr \<lparr>tg_path = ?pth, tg_time_knots = ?K, tg_avg_speed = Some v,
                  tg_cs_x = Some cs_x, tg_cs_y = Some cs_y, tg_cs_z = Some cs_z\<rparr>"
    by blast
  have "ppoly_call cs_x (?K ! i) = fst (?pth ! i) \<and>
        ppoly_call cs_y (?K ! i) = fst (snd (?pth ! i)) \<and>
        ppoly_call cs_z (?K ! i) = snd (snd (?pth ! i))" if i: "i < length ?pth" for i
  proof -
    have iK: "i < length ?K" using i lenK by simp
    have "ppoly_call cs_x (?K ! i) = map fst ?pth ! i"
      by (rule CubicSpline_interpolates[OF len2 _ sorted x iK]) (simp add: lenK)
    moreover have "ppoly_call cs_y (?K ! i) = map (\<lambda>p. fst (snd p)) ?pth ! i"
      by (rule CubicSpline_interpolates[OF len2 _ sorted y iK]) (simp add: lenK)
    moreover have "ppoly_call cs_z (?K ! i) = map (\<lambda>p. snd (snd p)) ?pth ! i"
      by (rule CubicSpline_interpolates[OF len2 _ sorted z iK]) (simp add: lenK)
    ultimately show ?thesis using i by simp
  qed
  then show ?thesis using tg lenK by simp
qed

theorem C3_witness:
  "2 \<le> length (deduplicate [(0, 0, 0), (0, 0, 0), (3, 0, 0)]) \<and> (0 :: real) < 1 \<and>
   (\<exists>tg cs_x cs_y cs_z.
      TrajectoryGenerator_init [(0, 0, 0), (0, 0, 0), (3, 0, 0)] 1 = Inr tg \<and>
      tg_path tg = [(0, 0, 0), (3, 0, 0)] \<and>
      length (tg_time_knots tg) = 2 \<and>
      tg_cs_x tg = Some cs_x \<and> tg_cs_y tg = Some cs_y \<and> tg_cs_z tg = Some cs_z \<and>
      ppoly_call cs_x (tg_time_knots tg ! 1) = 3 \<and>
      ppoly_call cs_y (tg_time_knots tg ! 1) = 0 \<and>
      ppoly_call cs_z (tg_time_knots tg ! 1) = 0)"
proof -
  have h1: "2 \<le> length (deduplicate [(0, 0, 0), (0, 0, 0), (3, 0, 0)])"
    by (simp add: dedup_scenario)
  have h2: "(0 :: real) < 1" by simp
  from C3_spline_interpolates_waypoints[OF h1 h2] obtain tg cs_x cs_y cs_z where
    a: "TrajectoryGenerator_init [(0, 0, 0), (0, 0, 0), (3, 0, 0)] 1 = Inr tg"
      "tg_path tg = deduplicate [(0, 0, 0), (0, 0, 0), (3, 0, 0)]"
      "length (tg_time_knots tg) = length (tg_path tg)"
      "tg_cs_x tg = Some cs_x" "tg_cs_y tg = Some cs_y" "tg_cs_z tg = Some cs_z" and
    b: "\<forall>i < length (tg_path tg).
          ppoly_call cs_x (tg_time_knots tg ! i) = fst (tg_path tg ! i) \<and>
          ppoly_call cs_y (tg_time_knots tg ! i) = fst (snd (tg_path tg ! i)) \<and>
          ppoly_call cs_z (tg_time_knots tg ! i) = snd (snd (tg_path tg ! i))"
    by blast
  have p: "tg_path tg = [(0, 0, 0), (3, 0, 0)]" using a(2) by (simp add: dedup_scenario)
  from b[THEN spec, of 1] have
    "ppoly_call cs_x (tg_time_knots tg ! 1) = 3 \<and>
     ppoly_call cs_y (tg_time_knots tg ! 1) = 0 \<and>
     ppoly_call cs_z (tg_time_knots tg ! 1) = 0" by (simp add: p)
  with h1 h2 a p show ?thesis by auto
qed

text \<open>
  C4. For a fitted trajectory (at least two points after deduplication, positive
  average speed) and every \<open>dt > 0\<close>, \<open>solve(dt)\<close> returns, and the last timestamp it
  returns is exactly the final time knot.
\<close>

theorem C4_last_timestamp_is_final_knot:
  assumes "2 \<le> length (deduplicate raw_path)" and "0 < v" and "0 < dt"
  shows "\<exists>tg t_eval x_traj y_traj z_traj.
           TrajectoryGenerator_init raw_path v = Inr tg \<and>
           solve tg dt = Inr (t_eval, x_traj, y_traj, z_traj) \<and>
           t_eval \<noteq> [] \<and> last t_eval = last (tg_time_knots tg)"
proof -
  from init_fitted[OF assms(1,2)] obtain tg cs_x cs_y cs_z where
    init: "TrajectoryGenerator_init raw_path v = Inr tg" and
    tg: "tg = \<lparr>tg_path = deduplicate raw_path,
              tg_time_knots = calculate_time_knots (deduplicate raw_path) v,
              tg_avg_speed = Some v,
              tg_cs_x = Some cs_x, tg_cs_y = Some cs_y, tg_cs_z = Some cs_z\<rparr>"
    by blast
  from solve_fitted[OF tg assms(1) last_time_knots_pos[OF assms(1,2)] assms(3)] init
  show ?thesis by (simp add: tg)
qed

theorem C4_witness:
  "2 \<le> length (deduplicate [(0, 0, 0), (0, 0, 0), (3, 0, 0)]) \<and> (0 :: real) < 1 \<and>
   (0 :: real) < 2 \<and>
   (\<exists>tg t_eval x_traj y_traj z_traj.
      TrajectoryGenerator_init [(0, 0, 0), (0, 0, 0), (3, 0, 0)] 1 = Inr tg \<and>
      solve tg 2 = Inr (t_eval, x_traj, y_traj, z_traj) \<and>
      t_eval \<noteq> [] \<and> last t_eval = last (tg_time_knots tg))"
proof -
  have h1: "2 \<le> length (deduplicate [(0, 0, 0), (0, 0, 0), (3, 0, 0)])"
    by (simp add: dedup_scenario)
  have h2: "(0 :: real) < 1" and h3: "(0 :: real) < 2" by simp_all
  from C4_last_timestamp_is_final_knot[OF h1 h2 h3] h1 h2 h3 show ?thesis by blast
qed

text \<open>
  C10. For a fitted trajectory and every \<open>dt > 0\<close>, \<open>solve(dt)\<close> returns four arrays
  of the same length; the timestamps are strictly increasing and begin with exactly 0.
\<close>

theorem C10_solve_arrays:
  assumes "2 \<le> length (deduplicate raw_path)" and "0 < v" and "0 < dt"
  shows "\<exists>tg t_eval x_traj y_traj z_traj.
           TrajectoryGenerator_init raw_path v = Inr tg \<and>
           solve tg dt = Inr (t_eval, x_traj, y_traj, z_traj) \<and>
           length x_traj = length t_eval \<and> length y_traj = length t_eval \<and>
           length z_traj = length t_eval \<and>
           sorted_wrt (<) t_eval \<and> t_eval \<noteq> [] \<and> hd t_eval = 0"
proof -
  let ?K = "calculate_time_knots (deduplicate raw_path) v"
  let ?N = "nat \<lceil>(last ?K - 0) / dt\<rceil>"
  from init_fitted[OF assms(1,2)] obtain tg cs_x cs_y cs_z where
    init: "TrajectoryGenerator_init raw_path v = Inr tg" and
    tg: "tg = \<lparr>tg_path = deduplicate raw_path, tg_time_knots = ?K,
              tg_avg_speed = Some v,
              tg_cs_x = Some cs_x, tg_cs_y = Some cs_y, tg_cs_z = Some cs_z\<rparr>"
    by blast
  have total_time: "0 < last ?K" by (rule last_time_knots_pos[OF assms(1,2)])
  from arange_last_less[OF total_time assms(3)]
  have N: "?N \<noteq> 0" and l: "real (?N - 1) * dt < last ?K" by simp_all
  have s: "sorted_wrt (<) (map (\<lambda>i. 0 + real i * dt) [0 ..< ?N] @ [last ?K])"
    by (rule sorted_samples[OF assms(3) N l])
  have h: "hd (map (\<lambda>i. 0 + real i * dt) [0 ..< ?N] @ [last ?K]) = 0"
    using N by (simp add: hd_append hd_map upt_conv_Cons del: upt_Suc)
  from solve_fitted[OF tg assms(1) total_time assms(3)] init s h
  show ?thesis by (simp del: upt_Suc)
qed

theorem C10_witness:
  "2 \<le> length (deduplicate [(0, 0, 0), (0, 0, 0), (3, 0, 0)]) \<and> (0 :: real) < 1 \<and>
   (0 :: real) < 1 / 10 \<and>
   (\<exists>tg t_eval x_traj y_traj z_traj.
      TrajectoryGenerator_init [(0, 0, 0), (0, 0, 0), (3, 0, 0)] 1 = Inr tg \<and>
      solve tg (1 / 10) = Inr (t_eval, x_traj, y_traj, z_traj) \<and>
      length x_traj = length t_eval \<and> length y_traj = length t_eval \<and>
      length z_traj = length t_eval \<and>
      sorted_wrt (<) t_eval \<and> t_eval \<noteq> [] \<and> hd t_eval = 0)"
proof -
  have h1: "2 \<le> length (deduplicate [(0, 0, 0), (0, 0, 0), (3, 0, 0)])"
    by (simp add: dedup_scenario)
  have h2: "(0 :: real) < 1" and h3: "(0 :: real) < 1 / 10" by simp_all
  from C10_solve_arrays[OF h1 h2 h3] h1 h2 h3 show ?thesis by blast
qed

text \<open>
  C6 at an input that breaks it. The second and the third point are each within the
  threshold of their predecessor in the input and are dropped; the fourth is kept
  because it is far from the third, although it equals the first. The retained sequence
  is the same point twice.
\<close>

theorem C6_deduplicate_leaves_duplicates:
  "deduplicate [(0, 0, 0), (8 / 10000, 0, 0), (16 / 10000, 0, 0), (0, 0, 0)]
     = [(0, 0, 0), (0, 0, 0)] \<and>
   get_dist
     (deduplicate [(0, 0, 0), (8 / 10000, 0, 0), (16 / 10000, 0, 0), (0, 0, 0)] ! 0)
     (deduplicate [(0, 0, 0), (8 / 10000, 0, 0), (16 / 10000, 0, 0), (0, 0, 0)] ! 1)
     \<le> 1 / 1000"
  unfolding dedup_failing by (simp add: get_dist_axis)

subsection \<open>Invalid configuration\<close>

text \<open>
  C5, as the code has it. Neither call validates its configuration. The planner with
  step size 0 returns the empty sequence, and with a non-positive step size it never
  returns a non-empty one. The constructor of the trajectory generator returns the
  degenerate state when fewer than two points remain after deduplication, whatever the
  average speed; with at least two points and a non-positive average speed the spline
  constructor rejects the time knots with a ValueError.
\<close>

theorem C5_no_validation:
  "a_star_search env start_pos goal_pos 0 = Some [] \<and>
   (step_size \<le> 0 \<longrightarrow> a_star_search env start_pos goal_pos step_size = Some pth \<longrightarrow> pth = []) \<and>
   (length (deduplicate raw_path) < 2 \<longrightarrow>
      TrajectoryGenerator_init raw_path v =
        Inr \<lparr>tg_path = deduplicate raw_path, tg_time_knots = [0], tg_avg_speed = None,
             tg_cs_x = None, tg_cs_y = None, tg_cs_z = None\<rparr>) \<and>
   (2 \<le> length (deduplicate raw_path) \<longrightarrow> v \<le> 0 \<longrightarrow>
      TrajectoryGenerator_init raw_path v = Inl ValueError)"
  using zero_step[of env start_pos goal_pos]
        nonpositive_step[of step_size env start_pos goal_pos pth]
        init_degenerate[of raw_path v] init_nonpositive_speed[of raw_path v]
  by blast

theorem C5_witness:
  "(- 1 :: real) \<le> 0 \<and>
   a_star_search corridor_env (0, 0, 0) (5, 0, 0) 0 = Some [] \<and>
   length (deduplicate [(5, 5, 5)]) < 2 \<and>
   TrajectoryGenerator_init [(5, 5, 5)] (- 1) =
     Inr \<lparr>tg_path = [(5, 5, 5)], tg_time_knots = [0], tg_avg_speed = None,
          tg_cs_x = None, tg_cs_y = None, tg_cs_z = None\<rparr> \<and>
   2 \<le> length (deduplicate [(0, 0, 0), (0, 0, 0), (3, 0, 0)]) \<and>
   TrajectoryGenerator_init [(0, 0, 0), (0, 0, 0), (3, 0, 0)] (- 1) = Inl ValueError"
proof -
  have h1: "length (deduplicate [(5, 5, 5)]) < 2" by (simp add: dedup_single)
  have h2: "2 \<le> length (deduplicate [(0, 0, 0), (0, 0, 0), (3, 0, 0)])"
    by (simp add: dedup_scenario)
  have h3: "(- 1 :: real) \<le> 0" by simp
  from C5_no_validation[of corridor_env "(0, 0, 0)" "(5, 0, 0)" 0 "[]" "[(5, 5, 5)]" "- 1"]
       C5_no_validation[of corridor_env "(0, 0, 0)" "(5, 0, 0)" 0 "[]"
         "[(0, 0, 0), (0, 0, 0), (3, 0, 0)]" "- 1"]
       h1 h2 h3
  show ?thesis by (simp add: dedup_single)
qed

text \<open>
  C5 as stated fails: the planner called with step size 0 returns the empty sequence,
  and the constructor called with average speed 0 on a single waypoint returns the
  degenerate state; neither reports an error.
\<close>

theorem C5_counterexample:
  "a_star_search corridor_env (0, 0, 0) (3 / 4, 0, 0) 0 = Some [] \<and>
   TrajectoryGenerator_init [(5, 5, 5)] 0 =
     Inr \<lparr>tg_path = [(5, 5, 5)], tg_time_knots = [0], tg_avg_speed = None,
          tg_cs_x = None, tg_cs_y = None, tg_cs_z = None\<rparr>"
  using zero_step[of corridor_env "(0, 0, 0)" "(3 / 4, 0, 0)"]
        init_degenerate[of "[(5, 5, 5)]" 0]
  by (simp add: dedup_single)

end
